theory Spec2Isabelle
  imports Main "HOL-Library.Sublist"
begin

section \<open>Python values, errors and string primitives\<close>

text \<open>
  The agent lives in \<^verbatim>\<open>pptx_agent.py\<close>. Its tools receive whatever values the
  language model put into the JSON arguments of a tool call, and nothing in the code
  checks their types, so the fields of a \<^verbatim>\<open>Correction\<close> are modelled as dynamically
  typed values. A \<^verbatim>\<open>str\<close> is the list of its characters (code points below 256);
  \<^verbatim>\<open>float\<close> values (JSON numbers with a fraction or an exponent) are not modelled.
  A dictionary decoded from JSON is an association list read with \<open>map_of\<close>.
\<close>

datatype pyval =
    PNone
  | PBool bool
  | PInt int
  | PStr string
  | PList "pyval list"
  | PDict "(string \<times> pyval) list"

text \<open>
  Every \<^verbatim>\<open>raise\<close> the modelled code can reach is a value of this type. The two
  collaborators (document library, model-completion API) fail with
  \<open>PackageNotFoundError\<close>, \<open>PersistenceError\<close> and \<open>APIError\<close>.
\<close>

datatype error =
    KeyError string
  | TypeError
  | ValueError
  | JSONDecodeError
  | PackageNotFoundError string
  | PersistenceError string
  | APIError

text \<open>\<^verbatim>\<open>str.isspace\<close> on one character, for code points below 256.\<close>

definition py_isspace :: "char \<Rightarrow> bool" where
  "py_isspace c =
     (let n = (of_char c :: nat)
      in (9 \<le> n \<and> n \<le> 13) \<or> (28 \<le> n \<and> n \<le> 32) \<or> n = 133 \<or> n = 160)"

text \<open>\<^verbatim>\<open>s.strip()\<close>.\<close>

definition py_strip :: "string \<Rightarrow> string" where
  "py_strip s = rev (dropWhile py_isspace (rev (dropWhile py_isspace s)))"

text \<open>
  \<^verbatim>\<open>sub in s\<close> on two strings is \<^const>\<open>sublist\<close> \<open>sub s\<close>: some part of \<open>s\<close>,
  taken without gaps, equals \<open>sub\<close>. The empty string is in every string.

  \<^verbatim>\<open>s.replace(old, new)\<close> scans \<open>s\<close> from the left; at each position where \<open>old\<close>
  starts it emits \<open>new\<close> and jumps behind the occurrence. For an empty \<open>old\<close> Python
  puts \<open>new\<close> in front of every character and at the end.
\<close>

fun replace_scan :: "string \<Rightarrow> string \<Rightarrow> string \<Rightarrow> string" where
  "replace_scan old new [] = []"
| "replace_scan old new (c # cs) =
     (if prefix old (c # cs)
      then new @ replace_scan old new (drop (length old - 1) cs)
      else c # replace_scan old new cs)"

definition py_replace :: "string \<Rightarrow> string \<Rightarrow> string \<Rightarrow> string" where
  "py_replace s old new =
     (if old = [] then new @ concat (map (\<lambda>c. c # new) s)
      else replace_scan old new s)"

text \<open>
  \<^verbatim>\<open>int(s)\<close> for a string, base ten: surrounding whitespace is dropped, one sign is
  allowed, then at least one digit, and single underscores may stand between digits.
  Everything else raises \<^verbatim>\<open>ValueError\<close>, and so does a string with more than
  4300 digits (the interpreter's default limit; leading zeros count, underscores do
  not). The whitespace \<^verbatim>\<open>int\<close> drops is not that of \<^verbatim>\<open>strip\<close>: the separators
  28 to 31 are not part of it.
\<close>

definition int_isspace :: "char \<Rightarrow> bool" where
  "int_isspace c =
     (let n = (of_char c :: nat)
      in (9 \<le> n \<and> n \<le> 13) \<or> n = 32 \<or> n = 133 \<or> n = 160)"

definition py_isdigit :: "char \<Rightarrow> bool" where
  "py_isdigit c = (let n = (of_char c :: nat) in 48 \<le> n \<and> n \<le> 57)"

definition digit_val :: "char \<Rightarrow> nat" where
  "digit_val c = (of_char c :: nat) - 48"

fun parse_digits :: "nat \<Rightarrow> string \<Rightarrow> nat option" where
  "parse_digits acc [] = Some acc"
| "parse_digits acc (c # cs) =
     (if py_isdigit c then parse_digits (10 * acc + digit_val c) cs
      else if c = CHR ''_'' then
        (case cs of
           [] \<Rightarrow> None
         | d # ds \<Rightarrow> if py_isdigit d then parse_digits (10 * acc + digit_val d) ds else None)
      else None)"

definition parse_unsigned :: "string \<Rightarrow> nat option" where
  "parse_unsigned s =
     (case s of
        [] \<Rightarrow> None
      | c # cs \<Rightarrow> if py_isdigit c then parse_digits (digit_val c) cs else None)"

definition MAX_STR_DIGITS :: nat where
  "MAX_STR_DIGITS = 4300"

definition parse_limited :: "string \<Rightarrow> nat option" where
  "parse_limited s =
     (case parse_unsigned s of
        None \<Rightarrow> None
      | Some n \<Rightarrow> if length (filter py_isdigit s) > MAX_STR_DIGITS then None else Some n)"

definition py_int_of_str :: "string \<Rightarrow> error + int" where
  "py_int_of_str s =
     (case rev (dropWhile int_isspace (rev (dropWhile int_isspace s))) of
        [] \<Rightarrow> Inl ValueError
      | c # cs \<Rightarrow>
          if c = CHR ''-'' then
            (case parse_limited cs of None \<Rightarrow> Inl ValueError | Some n \<Rightarrow> Inr (- int n))
          else if c = CHR ''+'' then
            (case parse_limited cs of None \<Rightarrow> Inl ValueError | Some n \<Rightarrow> Inr (int n))
          else
            (case parse_limited (c # cs) of None \<Rightarrow> Inl ValueError | Some n \<Rightarrow> Inr (int n)))"

text \<open>
  \<^verbatim>\<open>int(x)\<close> for any value: a string is parsed, an integer is itself, a boolean is
  0 or 1, and \<^verbatim>\<open>None\<close>, lists and dictionaries raise \<^verbatim>\<open>TypeError\<close>.
\<close>

definition py_int :: "pyval \<Rightarrow> error + int" where
  "py_int v =
     (case v of
        PStr s \<Rightarrow> py_int_of_str s
      | PInt n \<Rightarrow> Inr n
      | PBool b \<Rightarrow> Inr (if b then 1 else 0)
      | _ \<Rightarrow> Inl TypeError)"

text \<open>\<^verbatim>\<open>x - 1\<close> for any value: defined on integers and booleans only.\<close>

definition py_sub1 :: "pyval \<Rightarrow> error + int" where
  "py_sub1 v =
     (case v of
        PInt n \<Rightarrow> Inr (n - 1)
      | PBool b \<Rightarrow> Inr ((if b then 1 else 0) - 1)
      | _ \<Rightarrow> Inl TypeError)"

text \<open>\<^verbatim>\<open>str(n)\<close> for an integer, as an f-string prints it.\<close>

fun str_of_nat :: "nat \<Rightarrow> string" where
  "str_of_nat n =
     (if n < 10 then [char_of (48 + n)]
      else str_of_nat (n div 10) @ [char_of (48 + n mod 10)])"

definition str_of_int :: "int \<Rightarrow> string" where
  "str_of_int i = (if i < 0 then CHR ''-'' # str_of_nat (nat (- i)) else str_of_nat (nat i))"

section \<open>The document collaborator\<close>

text \<open>
  The presentation library is outside the repository; it is modelled by the interface
  the code uses: a presentation is an ordered list of slides, a slide an ordered list
  of shapes, a shape has a name, a position and size (each may be \<^verbatim>\<open>None\<close>), and
  optionally a text frame (paragraphs of runs) and a table (rows of cell texts).
  The position and size are what \<^verbatim>\<open>shape.left\<close>, \<^verbatim>\<open>shape.top\<close>,
  \<^verbatim>\<open>shape.width\<close> and \<^verbatim>\<open>shape.height\<close> return; \<open>has_offset\<close> tells whether the
  shape carries an offset of its own, which a placeholder that takes its position
  from the layout does not. Two assignments of the library do more than store the
  value; they are modelled after the records.
\<close>

record run =
  run_text :: string
  bold :: "bool option"
  italic :: "bool option"

record para =
  runs :: "run list"
  level :: int

record shape =
  name :: string
  left :: "int option"
  top_pos :: "int option"
  width :: "int option"
  height :: "int option"
  text_frame :: "para list option"
  table :: "string list list option"
  has_offset :: bool

record notes_slide =
  notes_text_frame :: "string option"

record slide =
  shapes :: "shape list"
  slide_notes :: "notes_slide option"

record presentation =
  slides :: "slide list"

text \<open>
  \<^verbatim>\<open>run.text = s\<close> stores \<open>s\<close> as XML text: each control character 0x00 to 0x08
  and 0x0B to 0x1F is written as \<^verbatim>\<open>_xHHHH_\<close> with its code in four upper-case
  hexadecimal digits, and that is what \<^verbatim>\<open>run.text\<close> reads afterwards.
\<close>

definition xml_control :: "char \<Rightarrow> bool" where
  "xml_control c = (let n = (of_char c :: nat) in n \<le> 8 \<or> (11 \<le> n \<and> n \<le> 31))"

definition hex_digit :: "nat \<Rightarrow> char" where
  "hex_digit n = ''0123456789ABCDEF'' ! (n mod 16)"

definition escape_char :: "char \<Rightarrow> string" where
  "escape_char c =
     (if xml_control c then
        (let n = (of_char c :: nat)
         in ''_x'' @ [hex_digit (n div 4096), hex_digit (n div 256), hex_digit (n div 16),
                      hex_digit n] @ ''_'')
      else [c])"

definition pptx_escape :: "string \<Rightarrow> string" where
  "pptx_escape s = concat (map escape_char s)"

definition set_run_text :: "run \<Rightarrow> string \<Rightarrow> run" where
  "set_run_text r s = r\<lparr>run_text := pptx_escape s\<rparr>"

text \<open>
  \<^verbatim>\<open>shape.left = v\<close> for an integer \<open>v\<close>: the library accepts a coordinate from
  -27273042329600 to 27273042316900 and raises \<^verbatim>\<open>ValueError\<close> for any other. A
  shape without an offset of its own gets one, created at (0, 0), before the
  coordinate is stored: its top position is 0 afterwards.
\<close>

definition emu_ok :: "int \<Rightarrow> bool" where
  "emu_ok v = (-27273042329600 \<le> v \<and> v \<le> 27273042316900)"

definition set_left :: "shape \<Rightarrow> int \<Rightarrow> error + shape" where
  "set_left sh v =
     (if emu_ok v then
        Inr (sh\<lparr>left := Some v,
                top_pos := (if has_offset sh then top_pos sh else Some 0),
                has_offset := True\<rparr>)
      else Inl ValueError)"

text \<open>
  The files the run can see: \<^verbatim>\<open>Presentation(path)\<close> raises when there is no
  package at \<open>path\<close>, \<^verbatim>\<open>prs.save(path)\<close> raises when \<open>path\<close> cannot be written
  and stores the document otherwise.
\<close>

record disk =
  files :: "string \<rightharpoonup> presentation"
  unwritable :: "string set"

definition open_presentation :: "disk \<Rightarrow> string \<Rightarrow> error + presentation" where
  "open_presentation fs path =
     (case files fs path of
        None \<Rightarrow> Inl (PackageNotFoundError path)
      | Some prs \<Rightarrow> Inr prs)"

definition save_presentation :: "disk \<Rightarrow> presentation \<Rightarrow> string \<Rightarrow> error + disk" where
  "save_presentation fs prs path =
     (if path \<in> unwritable fs then Inl (PersistenceError path)
      else Inr (fs\<lparr>files := (files fs)(path \<mapsto> prs)\<rparr>))"

text \<open>\<^verbatim>\<open>para.text\<close>: the text of the paragraph's runs, in order.\<close>

definition para_text :: "para \<Rightarrow> string" where
  "para_text p = concat (map run_text (runs p))"

section \<open>Data structures of the agent\<close>

text \<open>What \<^verbatim>\<open>tool_extract_slide_content\<close> stores for a run, a paragraph and a shape.\<close>

record run_info =
  ri_text :: string
  ri_bold :: "bool option"
  ri_italic :: "bool option"

record para_info =
  pi_text :: string
  pi_level :: int
  pi_runs :: "run_info list"

record shape_info =
  si_name :: string
  si_left :: "int option"
  si_top :: "int option"
  si_width :: "int option"
  si_height :: "int option"
  si_text_content :: "para_info list"
  si_table :: "string list list option"

record SlideContent =
  content_slide_number :: int
  content_shapes :: "shape_info list"
  content_notes :: string

record Correction =
  slide_number :: pyval
  shape_name :: pyval
  original_text :: pyval
  corrected_text :: pyval
  correction_type :: pyval
  reasoning :: pyval

text \<open>One entry of the \<^verbatim>\<open>applied\<close> list that \<^verbatim>\<open>tool_apply_all_corrections\<close> builds.\<close>

datatype detail =
    AlignmentDetail pyval pyval
  | TextDetail pyval pyval pyval pyval

text \<open>One title found by \<^verbatim>\<open>tool_analyze_alignment\<close>.\<close>

record title_position =
  tp_slide :: int
  tp_name :: string
  tp_left :: "int option"
  tp_top :: "int option"

text \<open>
  The dictionaries the tools return, one constructor per shape of dictionary. The
  transcript holds \<^verbatim>\<open>json.dumps\<close> of them; the model keeps the value.
\<close>

datatype tool_result =
    ExtractResult "SlideContent list" int
  | AnalysisResult pyval
  | NoTitles
  | AlignmentResult bool "int option" "title_position list" string
  | CorrectionAdded pyval pyval pyval pyval pyval
  | NoCorrections
  | ApplySuccess int "detail list" string
  | Complete int string
  | ErrorResult string

record tool_call =
  call_id :: string
  fn_name :: string
  fn_arguments :: string

record assistant_message =
  content :: "string option"
  tool_calls :: "tool_call list"

datatype message =
    SystemMsg string
  | UserMsg string
  | AssistantMsg assistant_message
  | ToolMsg string tool_result

record AgentState =
  presentation_path :: string
  output_path :: string
  slides_content :: "SlideContent list"
  pending_corrections :: "Correction list"
  applied_corrections :: "Correction list"
  current_task :: string
  iteration :: int
  is_complete :: bool
  messages :: "message list"

section \<open>The correction applier\<close>

text \<open>
  A \<^verbatim>\<open>for\<close> loop whose body edits the element it visits and appends to the local
  list \<^verbatim>\<open>applied\<close>: the body returns the edited element and the entries it adds, or
  an error, which ends the loop.
\<close>

fun for_each :: "('a \<Rightarrow> error + 'a \<times> 'd list) \<Rightarrow> 'a list \<Rightarrow> error + 'a list \<times> 'd list" where
  "for_each f [] = Inr ([], [])"
| "for_each f (x # xs) =
     (case f x of
        Inl e \<Rightarrow> Inl e
      | Inr (x', ds) \<Rightarrow>
          (case for_each f xs of
             Inl e \<Rightarrow> Inl e
           | Inr (xs', ds') \<Rightarrow> Inr (x' # xs', ds @ ds')))"

text \<open>
  The body of the loop over runs (lines 291 to 301). \<^verbatim>\<open>original_text in run.text\<close>
  raises \<^verbatim>\<open>TypeError\<close> unless \<open>original_text\<close> is a string, and so does
  \<^verbatim>\<open>replace\<close> unless \<open>corrected_text\<close> is one.
\<close>

definition apply_run :: "Correction \<Rightarrow> run \<Rightarrow> error + run \<times> detail list" where
  "apply_run c r =
     (case original_text c of
        PStr orig \<Rightarrow>
          if sublist orig (run_text r) then
            (case corrected_text c of
               PStr corr \<Rightarrow>
                 Inr (set_run_text r (py_replace (run_text r) orig corr),
                      [TextDetail (slide_number c) (correction_type c)
                         (original_text c) (corrected_text c)])
             | _ \<Rightarrow> Inl TypeError)
          else Inr (r, [])
      | _ \<Rightarrow> Inl TypeError)"

definition apply_paragraph :: "Correction \<Rightarrow> para \<Rightarrow> error + para \<times> detail list" where
  "apply_paragraph c p =
     (case for_each (apply_run c) (runs p) of
        Inl e \<Rightarrow> Inl e
      | Inr (rs, ds) \<Rightarrow> Inr (p\<lparr>runs := rs\<rparr>, ds))"

text \<open>
  The body of the loop over the shapes of the slide (lines 273 to 301). The
  \<^verbatim>\<open>try\<close> of the alignment branch encloses \<^verbatim>\<open>int\<close>, the assignment of
  \<^verbatim>\<open>shape.left\<close> and the \<^verbatim>\<open>append\<close>, and it catches \<^verbatim>\<open>ValueError\<close> only: a
  \<^verbatim>\<open>ValueError\<close> of either leaves the shape as it is and adds no entry, any other
  exception leaves the loop.
\<close>

definition apply_shape :: "Correction \<Rightarrow> shape \<Rightarrow> error + shape \<times> detail list" where
  "apply_shape c sh =
     (if PStr (name sh) = shape_name c then
        (if correction_type c = PStr ''alignment'' then
           (case py_int (corrected_text c) of
              Inl ValueError \<Rightarrow> Inr (sh, [])
            | Inl e \<Rightarrow> Inl e
            | Inr new_left \<Rightarrow>
                (case set_left sh new_left of
                   Inl ValueError \<Rightarrow> Inr (sh, [])
                 | Inl e \<Rightarrow> Inl e
                 | Inr sh' \<Rightarrow> Inr (sh', [AlignmentDetail (slide_number c) (shape_name c)])))
         else
           (case text_frame sh of
              None \<Rightarrow> Inr (sh, [])
            | Some paras \<Rightarrow>
                (case for_each (apply_paragraph c) paras of
                   Inl e \<Rightarrow> Inl e
                 | Inr (paras', ds) \<Rightarrow> Inr (sh\<lparr>text_frame := Some paras'\<rparr>, ds))))
      else Inr (sh, []))"

text \<open>The body of the loop over the pending corrections (lines 266 to 301).\<close>

definition apply_correction :: "presentation \<Rightarrow> Correction \<Rightarrow> error + presentation \<times> detail list" where
  "apply_correction prs c =
     (case py_sub1 (slide_number c) of
        Inl e \<Rightarrow> Inl e
      | Inr slide_idx \<Rightarrow>
          if slide_idx < 0 \<or> slide_idx \<ge> int (length (slides prs)) then Inr (prs, [])
          else
            (let sl = slides prs ! nat slide_idx
             in case for_each (apply_shape c) (shapes sl) of
                  Inl e \<Rightarrow> Inl e
                | Inr (shs, ds) \<Rightarrow>
                    Inr (prs\<lparr>slides := (slides prs)[nat slide_idx := sl\<lparr>shapes := shs\<rparr>]\<rparr>, ds)))"

fun apply_corrections :: "presentation \<Rightarrow> Correction list \<Rightarrow> error + presentation \<times> detail list" where
  "apply_corrections prs [] = Inr (prs, [])"
| "apply_corrections prs (c # cs) =
     (case apply_correction prs c of
        Inl e \<Rightarrow> Inl e
      | Inr (prs', ds) \<Rightarrow>
          (case apply_corrections prs' cs of
             Inl e \<Rightarrow> Inl e
           | Inr (prs'', ds') \<Rightarrow> Inr (prs'', ds @ ds')))"

text \<open>
  A tool returns the files and the state as it leaves them, and either the
  dictionary it returns or the exception it raises. \<^verbatim>\<open>tool_apply_all_corrections\<close>
  touches the state only after \<^verbatim>\<open>prs.save\<close> has returned.
\<close>

definition tool_apply_all_corrections ::
    "disk \<Rightarrow> AgentState \<Rightarrow> disk \<times> AgentState \<times> (error + tool_result)" where
  "tool_apply_all_corrections fs st =
     (if pending_corrections st = [] then (fs, st, Inr NoCorrections)
      else
        (case open_presentation fs (presentation_path st) of
           Inl e \<Rightarrow> (fs, st, Inl e)
         | Inr prs \<Rightarrow>
             (case apply_corrections prs (pending_corrections st) of
                Inl e \<Rightarrow> (fs, st, Inl e)
              | Inr (prs', applied) \<Rightarrow>
                  (case save_presentation fs prs' (output_path st) of
                     Inl e \<Rightarrow> (fs, st, Inl e)
                   | Inr fs' \<Rightarrow>
                       (fs',
                        st\<lparr>applied_corrections := applied_corrections st @ pending_corrections st,
                           pending_corrections := []\<rparr>,
                        Inr (ApplySuccess (int (length applied)) applied (output_path st)))))))"

section \<open>The other tools\<close>

text \<open>
  \<^verbatim>\<open>tool_extract_slide_content\<close> (lines 77 to 138): paragraphs and runs whose text is
  blank are left out, and so are shapes with neither text nor a table row.
\<close>

definition extract_para :: "para \<Rightarrow> para_info" where
  "extract_para p =
     \<lparr>pi_text = para_text p, pi_level = level p,
      pi_runs = map (\<lambda>r. \<lparr>ri_text = run_text r, ri_bold = bold r, ri_italic = italic r\<rparr>)
                  (filter (\<lambda>r. py_strip (run_text r) \<noteq> []) (runs p))\<rparr>"

definition extract_shape :: "shape \<Rightarrow> shape_info" where
  "extract_shape sh =
     \<lparr>si_name = name sh, si_left = left sh, si_top = top_pos sh,
      si_width = width sh, si_height = height sh,
      si_text_content =
        (case text_frame sh of
           None \<Rightarrow> []
         | Some paras \<Rightarrow> map extract_para (filter (\<lambda>p. py_strip (para_text p) \<noteq> []) paras)),
      si_table = table sh\<rparr>"

definition extract_slide :: "nat \<times> slide \<Rightarrow> SlideContent" where
  "extract_slide p =
     (case p of (slide_idx, sl) \<Rightarrow>
        \<lparr>content_slide_number = int slide_idx + 1,
         content_shapes =
           filter (\<lambda>si. si_text_content si \<noteq> [] \<or> si_table si \<notin> {None, Some []})
                  (map extract_shape (shapes sl)),
         content_notes =
           (case slide_notes sl of
              None \<Rightarrow> []
            | Some ns \<Rightarrow> (case notes_text_frame ns of None \<Rightarrow> [] | Some t \<Rightarrow> t))\<rparr>)"

definition tool_extract_slide_content ::
    "disk \<Rightarrow> AgentState \<Rightarrow> disk \<times> AgentState \<times> (error + tool_result)" where
  "tool_extract_slide_content fs st =
     (case open_presentation fs (presentation_path st) of
        Inl e \<Rightarrow> (fs, st, Inl e)
      | Inr prs \<Rightarrow>
          (let contents = map extract_slide (enumerate 0 (slides prs))
           in (fs, st\<lparr>slides_content := contents\<rparr>,
               Inr (ExtractResult contents (int (length (slides prs)))))))"

text \<open>
  \<^verbatim>\<open>tool_analyze_alignment\<close> (lines 184 to 224) and \<^verbatim>\<open>find_most_common_position\<close>
  of \<^verbatim>\<open>correct_pptx.py\<close> (lines 88 to 100) count the left positions in a
  dictionary and take \<^verbatim>\<open>max\<close> over its items by count. A Python dictionary keeps its
  keys in the order of their first insertion, so \<^verbatim>\<open>left_counts\<close> is an association
  list: \<open>dict_incr\<close> is \<^verbatim>\<open>d[k] = d.get(k, 0) + 1\<close>. \<^verbatim>\<open>max\<close> keeps the item it has
  unless a later one is strictly greater.
\<close>

fun dict_incr :: "('k \<times> int) list \<Rightarrow> 'k \<Rightarrow> ('k \<times> int) list" where
  "dict_incr [] k = [(k, 1)]"
| "dict_incr ((k', n) # d) k =
     (if k' = k then (k', n + 1) # d else (k', n) # dict_incr d k)"

definition left_counts :: "'k list \<Rightarrow> ('k \<times> int) list" where
  "left_counts ls = foldl dict_incr [] ls"

fun max_item :: "'k \<times> int \<Rightarrow> ('k \<times> int) list \<Rightarrow> 'k \<times> int" where
  "max_item best [] = best"
| "max_item best (x # xs) = max_item (if snd x > snd best then x else best) xs"

definition py_max_by_count :: "('k \<times> int) list \<Rightarrow> error + 'k \<times> int" where
  "py_max_by_count d = (case d of [] \<Rightarrow> Inl ValueError | x # xs \<Rightarrow> Inr (max_item x xs))"

definition title_positions_of :: "presentation \<Rightarrow> title_position list" where
  "title_positions_of prs =
     concat (map (\<lambda>(slide_idx, sl).
                    map (\<lambda>sh. \<lparr>tp_slide = int slide_idx + 1, tp_name = name sh,
                               tp_left = left sh, tp_top = top_pos sh\<rparr>)
                        (filter (\<lambda>sh. sublist ''Title'' (name sh)) (shapes sl)))
                 (enumerate 0 (slides prs)))"

definition str_of_left :: "int option \<Rightarrow> string" where
  "str_of_left l = (case l of None \<Rightarrow> ''None'' | Some n \<Rightarrow> str_of_int n)"

definition analyze_alignment :: "presentation \<Rightarrow> error + tool_result" where
  "analyze_alignment prs =
     (let title_positions = title_positions_of prs
      in if title_positions = [] then Inr NoTitles
         else
           (case py_max_by_count (left_counts (map tp_left title_positions)) of
              Inl e \<Rightarrow> Inl e
            | Inr (most_common_left, n) \<Rightarrow>
                (let misaligned = filter (\<lambda>p. tp_left p \<noteq> most_common_left) title_positions
                 in Inr (AlignmentResult (length misaligned > 0) most_common_left misaligned
                          (''Align all titles to left position '' @ str_of_left most_common_left
                             @ '' EMUs'')))))"

definition tool_analyze_alignment ::
    "disk \<Rightarrow> AgentState \<Rightarrow> disk \<times> AgentState \<times> (error + tool_result)" where
  "tool_analyze_alignment fs st =
     (case open_presentation fs (presentation_path st) of
        Inl e \<Rightarrow> (fs, st, Inl e)
      | Inr prs \<Rightarrow> (fs, st, analyze_alignment prs))"

text \<open>\<^verbatim>\<open>find_most_common_position\<close>, on the left positions of the titles.\<close>

definition find_most_common_position :: "'k list \<Rightarrow> error + 'k option" where
  "find_most_common_position positions =
     (if positions = [] then Inr None
      else
        (case py_max_by_count (left_counts positions) of
           Inl e \<Rightarrow> Inl e
         | Inr most_common \<Rightarrow> Inr (Some (fst most_common))))"

text \<open>The field \<open>standard_left_position\<close> of the dictionary a tool returned.\<close>

definition standard_left_position :: "tool_result \<Rightarrow> int option option" where
  "standard_left_position r =
     (case r of AlignmentResult has_issues l misaligned recommendation \<Rightarrow> Some l | _ \<Rightarrow> None)"

definition tool_add_correction ::
    "AgentState \<Rightarrow> pyval \<Rightarrow> pyval \<Rightarrow> pyval \<Rightarrow> pyval \<Rightarrow> pyval \<Rightarrow> pyval
       \<Rightarrow> AgentState \<times> (error + tool_result)" where
  "tool_add_correction st sn shn orig corr ctype reason =
     (st\<lparr>pending_corrections := pending_corrections st @
           [\<lparr>slide_number = sn, shape_name = shn, original_text = orig,
             corrected_text = corr, correction_type = ctype, reasoning = reason\<rparr>]\<rparr>,
      Inr (CorrectionAdded sn shn ctype orig corr))"

definition tool_mark_complete :: "AgentState \<Rightarrow> AgentState \<times> (error + tool_result)" where
  "tool_mark_complete st =
     (st\<lparr>is_complete := True\<rparr>,
      Inr (Complete (int (length (applied_corrections st))) (output_path st)))"

section \<open>Tool registry and agent loop\<close>

definition MAX_ITERATIONS :: int where
  "MAX_ITERATIONS = 20"

text \<open>
  The registry \<^verbatim>\<open>TOOLS\<close> (lines 333 to 398): for each tool name its description and
  parameter schema (each property with its JSON type and, where the schema has one,
  its list of allowed values; then the required names). The descriptions of the
  properties are left out. The handler of each name is the function the dispatch
  below calls for it.
\<close>

record tool_property =
  json_type :: string
  enum :: "string list option"

record tool_spec =
  description :: string
  properties :: "(string \<times> tool_property) list"
  required :: "string list"

definition of_type :: "string \<Rightarrow> tool_property" where
  "of_type ty = \<lparr>json_type = ty, enum = None\<rparr>"

definition TOOLS :: "(string \<times> tool_spec) list" where
  "TOOLS =
     [(''extract_slide_content'',
       \<lparr>description = ''Extract all text content from the PowerPoint presentation for analysis'',
        properties = [], required = []\<rparr>),
      (''analyze_text_for_errors'',
       \<lparr>description = ''Use AI to analyze specific text for spelling and grammar errors'',
        properties = [(''slide_number'', of_type ''integer''), (''text'', of_type ''string'')],
        required = [''slide_number'', ''text'']\<rparr>),
      (''analyze_alignment'',
       \<lparr>description = ''Analyze alignment consistency of titles and elements across slides'',
        properties = [], required = []\<rparr>),
      (''add_correction'',
       \<lparr>description = ''Add a correction to the pending list'',
        properties =
          [(''slide_number'', of_type ''integer''), (''shape_name'', of_type ''string''),
           (''original_text'', of_type ''string''), (''corrected_text'', of_type ''string''),
           (''correction_type'',
            \<lparr>json_type = ''string'',
             enum = Some [''spelling'', ''grammar'', ''alignment'', ''formatting'']\<rparr>),
           (''reasoning'', of_type ''string'')],
        required = [''slide_number'', ''shape_name'', ''original_text'', ''corrected_text'',
                    ''correction_type'', ''reasoning'']\<rparr>),
      (''apply_all_corrections'',
       \<lparr>description = ''Apply all pending corrections to the presentation and save'',
        properties = [], required = []\<rparr>),
      (''mark_complete'',
       \<lparr>description = ''Mark the review task as complete'',
        properties = [], required = []\<rparr>)]"

text \<open>
  The collaborators of a run: the model-completion call of the loop, \<^verbatim>\<open>json.loads\<close>
  on the argument string of a tool call, and the proofreading completion of
  \<^verbatim>\<open>tool_analyze_text_for_errors\<close> with the decoding of its answer. Each returns a
  value or raises. The answer of the model may depend on the iteration and on the
  transcript; a run asks once per iteration, so whatever the model answers in a run
  is the value of such a function.
\<close>

record env =
  llm :: "int \<Rightarrow> message list \<Rightarrow> error + assistant_message"
  json_loads :: "string \<Rightarrow> error + pyval"
  proofread :: "pyval \<Rightarrow> pyval \<Rightarrow> error + pyval"

definition tool_analyze_text_for_errors ::
    "env \<Rightarrow> AgentState \<Rightarrow> pyval \<Rightarrow> pyval \<Rightarrow> AgentState \<times> (error + tool_result)" where
  "tool_analyze_text_for_errors ev st sn txt =
     (case proofread ev sn txt of
        Inl e \<Rightarrow> (st, Inl e)
      | Inr v \<Rightarrow> (st, Inr (AnalysisResult v)))"

text \<open>
  \<^verbatim>\<open>tool_args[key]\<close>: a missing key of a dictionary raises \<^verbatim>\<open>KeyError\<close>; a decoded
  value that is not a dictionary cannot be indexed by a string.
\<close>

definition py_getitem :: "pyval \<Rightarrow> string \<Rightarrow> error + pyval" where
  "py_getitem v k =
     (case v of
        PDict d \<Rightarrow> (case map_of d k of None \<Rightarrow> Inl (KeyError k) | Some x \<Rightarrow> Inr x)
      | _ \<Rightarrow> Inl TypeError)"

text \<open>
  The arguments of a call are evaluated from left to right before the handler runs
  (lines 510 to 520): the first one that raises ends the call.
\<close>

definition with_arg ::
    "disk \<Rightarrow> AgentState \<Rightarrow> error + pyval
       \<Rightarrow> (pyval \<Rightarrow> disk \<times> AgentState \<times> (error + tool_result))
       \<Rightarrow> disk \<times> AgentState \<times> (error + tool_result)" where
  "with_arg fs st a k = (case a of Inl e \<Rightarrow> (fs, st, Inl e) | Inr v \<Rightarrow> k v)"

text \<open>Lines 503 to 530: the result of one tool call, or the exception it raises.\<close>

definition dispatch ::
    "env \<Rightarrow> disk \<Rightarrow> AgentState \<Rightarrow> string \<Rightarrow> pyval \<Rightarrow> disk \<times> AgentState \<times> (error + tool_result)" where
  "dispatch ev fs st tool_name tool_args =
     (if tool_name \<in> set (map fst TOOLS) then
        (if tool_name = ''extract_slide_content'' then tool_extract_slide_content fs st
         else if tool_name = ''analyze_alignment'' then tool_analyze_alignment fs st
         else if tool_name = ''apply_all_corrections'' then tool_apply_all_corrections fs st
         else if tool_name = ''mark_complete'' then
           (case tool_mark_complete st of (st', r) \<Rightarrow> (fs, st', r))
         else if tool_name = ''analyze_text_for_errors'' then
           with_arg fs st (py_getitem tool_args ''slide_number'') (\<lambda>sn.
           with_arg fs st (py_getitem tool_args ''text'') (\<lambda>txt.
             (case tool_analyze_text_for_errors ev st sn txt of (st', r) \<Rightarrow> (fs, st', r))))
         else if tool_name = ''add_correction'' then
           with_arg fs st (py_getitem tool_args ''slide_number'') (\<lambda>sn.
           with_arg fs st (py_getitem tool_args ''shape_name'') (\<lambda>shn.
           with_arg fs st (py_getitem tool_args ''original_text'') (\<lambda>orig.
           with_arg fs st (py_getitem tool_args ''corrected_text'') (\<lambda>corr.
           with_arg fs st (py_getitem tool_args ''correction_type'') (\<lambda>ctype.
           with_arg fs st (py_getitem tool_args ''reasoning'') (\<lambda>reason.
             (case tool_add_correction st sn shn orig corr ctype reason of
                (st', r) \<Rightarrow> (fs, st', r))))))))
         else (fs, st, Inr (ErrorResult (''Unknown tool: '' @ tool_name))))
      else (fs, st, Inr (ErrorResult (''Tool not found: '' @ tool_name))))"

text \<open>
  The body of the loop over \<^verbatim>\<open>tool_calls\<close> (lines 494 to 537). The argument
  string is decoded first (an empty one stands for no arguments), before the name is
  looked up. The state of a run is local to \<^verbatim>\<open>run_agent\<close>, so an exception leaves
  only the files behind.
\<close>

definition tool_args_of :: "env \<Rightarrow> tool_call \<Rightarrow> error + pyval" where
  "tool_args_of ev tc =
     (if fn_arguments tc \<noteq> [] then json_loads ev (fn_arguments tc) else Inr (PDict []))"

definition exec_tool_call :: "env \<Rightarrow> disk \<Rightarrow> AgentState \<Rightarrow> tool_call \<Rightarrow> disk \<times> (error + AgentState)" where
  "exec_tool_call ev fs st tc =
     (case tool_args_of ev tc of
        Inl e \<Rightarrow> (fs, Inl e)
      | Inr tool_args \<Rightarrow>
          (case dispatch ev fs st (fn_name tc) tool_args of
             (fs', st', Inl e) \<Rightarrow> (fs', Inl e)
           | (fs', st', Inr result) \<Rightarrow>
               (fs', Inr (st'\<lparr>messages := messages st' @ [ToolMsg (call_id tc) result]\<rparr>))))"

fun exec_tool_calls :: "env \<Rightarrow> disk \<Rightarrow> AgentState \<Rightarrow> tool_call list \<Rightarrow> disk \<times> (error + AgentState)" where
  "exec_tool_calls ev fs st [] = (fs, Inr st)"
| "exec_tool_calls ev fs st (tc # tcs) =
     (case exec_tool_call ev fs st tc of
        (fs', Inl e) \<Rightarrow> (fs', Inl e)
      | (fs', Inr st') \<Rightarrow> exec_tool_calls ev fs' st' tcs)"

text \<open>One pass through the body of the \<^verbatim>\<open>while\<close> loop (lines 475 to 541).\<close>

definition run_iteration :: "env \<Rightarrow> disk \<Rightarrow> AgentState \<Rightarrow> disk \<times> (error + AgentState)" where
  "run_iteration ev fs st =
     (let st1 = st\<lparr>iteration := iteration st + 1\<rparr>
      in case llm ev (iteration st1) (messages st1) of
           Inl e \<Rightarrow> (fs, Inl e)
         | Inr assistant_msg \<Rightarrow>
             (let st2 = st1\<lparr>messages := messages st1 @ [AssistantMsg assistant_msg]\<rparr>
              in if tool_calls assistant_msg \<noteq> [] then
                   exec_tool_calls ev fs st2 (tool_calls assistant_msg)
                 else (fs, Inr st2)))"

text \<open>
  The \<^verbatim>\<open>while\<close> loop (lines 474 to 545). The completion flag is tested after the
  body and again in the loop condition.
\<close>

function agent_loop :: "env \<Rightarrow> disk \<Rightarrow> AgentState \<Rightarrow> disk \<times> (error + AgentState)" where
  "agent_loop ev fs st =
     (if \<not> is_complete st \<and> iteration st < MAX_ITERATIONS then
        (case run_iteration ev fs st of
           (fs', Inl e) \<Rightarrow> (fs', Inl e)
         | (fs', Inr st') \<Rightarrow>
             if is_complete st' then (fs', Inr st') else agent_loop ev fs' st')
      else (fs, Inr st))"
  by pat_completeness auto
termination
proof -
  have tool: "iteration b = iteration a"
    if "dispatch ev f a nm args = (g, b, res)" for ev f g a b nm args res
    using that
    by (auto simp: dispatch_def with_arg_def tool_extract_slide_content_def
        tool_analyze_alignment_def tool_apply_all_corrections_def tool_mark_complete_def
        tool_analyze_text_for_errors_def tool_add_correction_def Let_def
        split: if_splits sum.splits prod.splits)
  have call: "iteration b = iteration a"
    if "exec_tool_call ev f a tc = (g, Inr b)" for ev f g a b tc
    using that by (auto simp: exec_tool_call_def split: sum.splits prod.splits dest: tool)
  have calls: "iteration b = iteration a"
    if "exec_tool_calls ev f a tcs = (g, Inr b)" for ev f g a b tcs
    using that
  proof (induction tcs arbitrary: f a)
    case Nil
    then show ?case by simp
  next
    case (Cons tc tcs)
    then show ?case by (auto split: sum.splits prod.splits dest: call)
  qed
  have step: "iteration b = iteration a + 1"
    if "(g, Inr b) = run_iteration ev f a" for ev f g a b
    using that [symmetric]
    by (auto simp: run_iteration_def Let_def split: sum.splits if_splits dest: calls)
  show ?thesis
    by (relation "measure (\<lambda>(ev, fs, st). nat (MAX_ITERATIONS - iteration st))")
       (auto dest: step)
qed

declare agent_loop.simps [simp del]

definition SYSTEM_PROMPT :: string where
  "SYSTEM_PROMPT =
      ''You are a PowerPoint Review Agent. Your job is to review and correct PowerPoint presentations.\<newline>'' @
      ''\<newline>'' @
      ''Your workflow:\<newline>'' @
      ''1. First, call extract_slide_content to get all the text from the presentation\<newline>'' @
      ''2. For each piece of text, call analyze_text_for_errors to check for spelling/grammar issues\<newline>'' @
      ''3. Call analyze_alignment to check for alignment inconsistencies\<newline>'' @
      ''4. For each error found, call add_correction to queue the fix\<newline>'' @
      ''5. Once all errors are identified, call apply_all_corrections to save the fixed presentation\<newline>'' @
      ''6. Finally, call mark_complete to finish\<newline>'' @
      ''\<newline>'' @
      ''IMPORTANT RULES:\<newline>'' @
      ''- Only fix clear spelling and grammar errors\<newline>'' @
      ''- Do NOT change technical terms or business jargon\<newline>'' @
      ''- Do NOT rewrite for style - only fix actual errors\<newline>'' @
      ''- Preserve original meaning\<newline>'' @
      ''- Be thorough - check ALL text on ALL slides\<newline>'' @
      ''\<newline>'' @
      ''Process each slide systematically. After analyzing all content and applying corrections, mark the task complete.''"

text \<open>The dictionary \<^verbatim>\<open>run_agent\<close> returns (lines 564 to 577).\<close>

record summary_detail =
  sd_slide :: pyval
  sd_type :: pyval
  sd_original :: pyval
  sd_corrected :: pyval

record summary =
  iterations :: int
  corrections :: int
  output_file :: string
  details :: "summary_detail list"

definition initial_state :: "string \<Rightarrow> string \<Rightarrow> AgentState" where
  "initial_state presentation_path' output_path' =
     \<lparr>presentation_path = presentation_path', output_path = output_path',
      slides_content = [], pending_corrections = [], applied_corrections = [],
      current_task = ''analyze'', iteration = 0, is_complete = False,
      messages =
        [SystemMsg SYSTEM_PROMPT,
         UserMsg (''Please review and correct the PowerPoint presentation at: ''
                  @ presentation_path' @ ''\<newline>Save the corrected version to: ''
                  @ output_path')]\<rparr>"

definition summary_of :: "AgentState \<Rightarrow> summary" where
  "summary_of st =
     \<lparr>iterations = iteration st,
      corrections = int (length (applied_corrections st)),
      output_file = output_path st,
      details = map (\<lambda>c. \<lparr>sd_slide = slide_number c, sd_type = correction_type c,
                              sd_original = original_text c, sd_corrected = corrected_text c\<rparr>)
                    (applied_corrections st)\<rparr>"

definition run_agent :: "env \<Rightarrow> disk \<Rightarrow> string \<Rightarrow> string \<Rightarrow> disk \<times> (error + summary)" where
  "run_agent ev fs presentation_path' output_path' =
     (case agent_loop ev fs (initial_state presentation_path' output_path') of
        (fs', Inl e) \<Rightarrow> (fs', Inl e)
      | (fs', Inr st) \<Rightarrow> (fs', Inr (summary_of st)))"

section \<open>Notions of the specification\<close>

text \<open>
  The definitions of this section are not taken from the code. They say in the
  specification's words what the theorems below compare the code with.

  ``All occurrences of \<open>old\<close> in \<open>s\<close> are replaced by \<open>new\<close> and the rest of \<open>s\<close> is
  unchanged'', for a non-empty \<open>old\<close>: either \<open>old\<close> does not occur in \<open>s\<close> and the
  result is \<open>s\<close>, or \<open>s\<close> is cut at the leftmost occurrence of \<open>old\<close>, what stands
  before it is kept, the occurrence becomes \<open>new\<close>, and the same holds for what
  follows it. Occurrences are counted from the left and do not overlap. For each
  \<open>s\<close> exactly one result satisfies this (lemma \<open>replaces_all_iff\<close> below).
\<close>

inductive replaces_all :: "string \<Rightarrow> string \<Rightarrow> string \<Rightarrow> string \<Rightarrow> bool"
  for old new :: string where
  no_occurrence: "\<not> sublist old s \<Longrightarrow> replaces_all old new s s"
| leftmost: "\<not> sublist old (pre @ butlast old) \<Longrightarrow> replaces_all old new rest rest'
     \<Longrightarrow> replaces_all old new (pre @ old @ rest) (pre @ new @ rest')"

text \<open>
  ``The edits actually performed'': what a correction does to a run, a shape and a
  presentation, said without the loops. A run is edited when both texts of the
  correction are strings and the run contains the original text; a shape of the
  correction's name is edited in its left position by an alignment correction whose
  value is an integer the library accepts, and in its runs by any other correction;
  a presentation is edited in the shapes of the slide the correction names, when it
  has that slide. A list of corrections edits the presentation one after the other.
  A text is free of control characters when the library stores it as it is.
\<close>

definition no_control :: "string \<Rightarrow> bool" where
  "no_control s = list_all (\<lambda>ch. \<not> xml_control ch) s"

definition edit_run :: "Correction \<Rightarrow> run \<Rightarrow> run" where
  "edit_run c r =
     (case (original_text c, corrected_text c) of
        (PStr orig, PStr corr) \<Rightarrow>
          if sublist orig (run_text r) then set_run_text r (py_replace (run_text r) orig corr)
          else r
      | _ \<Rightarrow> r)"

definition edit_shape :: "Correction \<Rightarrow> shape \<Rightarrow> shape" where
  "edit_shape c sh =
     (if PStr (name sh) = shape_name c then
        (if correction_type c = PStr ''alignment'' then
           (case py_int (corrected_text c) of
              Inl e \<Rightarrow> sh
            | Inr v \<Rightarrow> (case set_left sh v of Inl e \<Rightarrow> sh | Inr sh' \<Rightarrow> sh'))
         else
           (case text_frame sh of
              None \<Rightarrow> sh
            | Some paras \<Rightarrow>
                sh\<lparr>text_frame := Some (map (\<lambda>p. p\<lparr>runs := map (edit_run c) (runs p)\<rparr>) paras)\<rparr>))
      else sh)"







text \<open>The distinct values of a list in the order of their first occurrence.\<close>

definition first_seen :: "'a list \<Rightarrow> 'a list" where
  "first_seen ls = rev (remdups (rev ls))"

text \<open>
  ``A model that never calls \<^verbatim>\<open>mark_complete\<close>'': no answer of the completion
  call, at any iteration and for any transcript, holds a tool call of that name.
\<close>

definition never_marks_complete :: "env \<Rightarrow> bool" where
  "never_marks_complete ev =
     (\<forall>i msgs am. llm ev i msgs = Inr am \<longrightarrow>
        (\<forall>tc \<in> set (tool_calls am). fn_name tc \<noteq> ''mark_complete''))"

text \<open>
  ``Validate the supplied arguments against the declared schema (required fields
  present, types match)'': the decoded arguments are a dictionary, every required
  name is a key of it, and every key that is a declared property has a value of the
  declared JSON type. The code has no counterpart of this predicate.
\<close>

definition has_json_type :: "string \<Rightarrow> pyval \<Rightarrow> bool" where
  "has_json_type ty v =
     (if ty = ''integer'' then (case v of PInt n \<Rightarrow> True | _ \<Rightarrow> False)
      else if ty = ''string'' then (case v of PStr s \<Rightarrow> True | _ \<Rightarrow> False)
      else True)"

definition spec_args_valid :: "tool_spec \<Rightarrow> pyval \<Rightarrow> bool" where
  "spec_args_valid sp args =
     (case args of
        PDict d \<Rightarrow>
          list_all (\<lambda>k. map_of d k \<noteq> None) (required sp)
        \<and> list_all (\<lambda>(k, p). case map_of d k of
                                None \<Rightarrow> True
                              | Some v \<Rightarrow> has_json_type (json_type p) v)
             (properties sp)
      | _ \<Rightarrow> False)"

section \<open>Example documents and corrections\<close>

text \<open>
  A deck of one slide with a title and two shapes that are both named ``Body'', a
  title placeholder that takes its position (100, 40) from the layout, a
  deck of two slides whose titles stand at different left positions, and a few
  corrections: of text, of text with a control character in it, and of alignment
  with a text that is not a number, with \<^verbatim>\<open>null\<close>, with a position the library
  refuses and with one it accepts. The theorems below are instantiated on them.
\<close>

definition text_run :: "string \<Rightarrow> run" where
  "text_run t = \<lparr>run_text = t, bold = None, italic = None\<rparr>"

definition text_shape :: "string \<Rightarrow> int \<Rightarrow> string list \<Rightarrow> shape" where
  "text_shape nm l ts =
     \<lparr>name = nm, left = Some l, top_pos = Some 0, width = Some 100, height = Some 50,
      text_frame = Some [\<lparr>runs = map text_run ts, level = 0\<rparr>], table = None,
      has_offset = True\<rparr>"

definition placeholder_title :: shape where
  "placeholder_title = (text_shape ''Title 1'' 100 [''Teh Title''])\<lparr>top_pos := Some 40, has_offset := False\<rparr>"

definition shape_texts :: "shape \<Rightarrow> string list" where
  "shape_texts sh = (case text_frame sh of None \<Rightarrow> [] | Some ps \<Rightarrow> concat (map (map run_text \<circ> runs) ps))"

definition deck_two_bodies :: presentation where
  "deck_two_bodies =
     \<lparr>slides = [\<lparr>shapes = [text_shape ''Title 1'' 100 [''Teh Title''],
                           text_shape ''Body'' 100 [''Teh quikc tets''],
                           text_shape ''Body'' 100 [''Teh end'']],
                 slide_notes = None\<rparr>]\<rparr>"

definition deck_placeholder :: presentation where
  "deck_placeholder = \<lparr>slides = [\<lparr>shapes = [placeholder_title], slide_notes = None\<rparr>]\<rparr>"

definition example_disk :: disk where
  "example_disk = \<lparr>files = [''deck.pptx'' \<mapsto> deck_two_bodies], unwritable = {''locked.pptx''}\<rparr>"

definition fix_teh :: Correction where
  "fix_teh =
     \<lparr>slide_number = PInt 1, shape_name = PStr ''Body'', original_text = PStr ''Teh'',
      corrected_text = PStr ''the'', correction_type = PStr ''spelling'',
      reasoning = PStr ''typo''\<rparr>"

definition fix_missing_slide :: Correction where
  "fix_missing_slide =
     \<lparr>slide_number = PInt 7, shape_name = PStr ''Body'', original_text = PStr ''Teh'',
      corrected_text = PStr ''the'', correction_type = PStr ''spelling'',
      reasoning = PStr ''typo''\<rparr>"

definition align_unparsable :: Correction where
  "align_unparsable =
     \<lparr>slide_number = PInt 1, shape_name = PStr ''Title 1'', original_text = PStr ''100'',
      corrected_text = PStr ''1.5 inches'', correction_type = PStr ''alignment'',
      reasoning = PStr ''align''\<rparr>"

definition fix_all_teh :: Correction where
  "fix_all_teh =
     \<lparr>slide_number = PInt 1, shape_name = PStr ''Body'', original_text = PStr ''teh'',
      corrected_text = PStr ''the'', correction_type = PStr ''spelling'',
      reasoning = PStr ''typo''\<rparr>"

definition fix_with_vtab :: Correction where
  "fix_with_vtab =
     \<lparr>slide_number = PInt 1, shape_name = PStr ''Body'', original_text = PStr ''Teh'',
      corrected_text = PStr [CHR ''a'', CHR 0x0B, CHR ''b''],
      correction_type = PStr ''spelling'', reasoning = PStr ''typo''\<rparr>"

definition align_null :: Correction where
  "align_null =
     \<lparr>slide_number = PInt 1, shape_name = PStr ''Title 1'', original_text = PStr ''100'',
      corrected_text = PNone, correction_type = PStr ''alignment'',
      reasoning = PStr ''align''\<rparr>"

definition align_too_far :: Correction where
  "align_too_far =
     \<lparr>slide_number = PInt 1, shape_name = PStr ''Title 1'', original_text = PStr ''100'',
      corrected_text = PStr ''27273042316901'', correction_type = PStr ''alignment'',
      reasoning = PStr ''align''\<rparr>"

definition align_to_250 :: Correction where
  "align_to_250 =
     \<lparr>slide_number = PInt 1, shape_name = PStr ''Title 1'', original_text = PStr ''100'',
      corrected_text = PStr ''250'', correction_type = PStr ''alignment'',
      reasoning = PStr ''align''\<rparr>"

definition example_state :: "Correction list \<Rightarrow> AgentState" where
  "example_state cs = (initial_state ''deck.pptx'' ''out.pptx'')\<lparr>pending_corrections := cs\<rparr>"

definition deck_tied_titles :: presentation where
  "deck_tied_titles =
     \<lparr>slides = [\<lparr>shapes = [text_shape ''Title 1'' 250 [''Intro'']], slide_notes = None\<rparr>,
                \<lparr>shapes = [text_shape ''Title 2'' 100 [''Plan''],
                           text_shape ''Body'' 300 [''Text'']], slide_notes = None\<rparr>]\<rparr>"

text \<open>
  Model answers for the examples of the loop: argument strings as the model could
  send them, a decoder that knows them (and rejects everything else, as
  \<^verbatim>\<open>json.loads\<close> rejects text that is not JSON), and collaborators that give the
  same answer at every iteration.
\<close>

definition args_missing_text :: string where
  "args_missing_text = ''{\"slide_number\": 1}''"

definition args_missing_reasoning :: string where
  "args_missing_reasoning =
     ''{\"slide_number\": 1, \"shape_name\": \"Body\", \"original_text\": \"Teh\", \"corrected_text\": \"the\", \"correction_type\": \"spelling\"}''"

definition args_ill_typed :: string where
  "args_ill_typed =
     ''{\"slide_number\": \"one\", \"shape_name\": \"Body\", \"original_text\": \"Teh\", \"corrected_text\": \"the\", \"correction_type\": \"spelling\", \"reasoning\": null}''"

definition args_not_json :: string where
  "args_not_json = ''{\"slide_number\": ''"

definition example_json_loads :: "string \<Rightarrow> error + pyval" where
  "example_json_loads s =
     (if s = args_missing_text then Inr (PDict [(''slide_number'', PInt 1)])
      else if s = args_missing_reasoning then
        Inr (PDict [(''slide_number'', PInt 1), (''shape_name'', PStr ''Body''),
                    (''original_text'', PStr ''Teh''), (''corrected_text'', PStr ''the''),
                    (''correction_type'', PStr ''spelling'')])
      else if s = args_ill_typed then
        Inr (PDict [(''slide_number'', PStr ''one''), (''shape_name'', PStr ''Body''),
                    (''original_text'', PStr ''Teh''), (''corrected_text'', PStr ''the''),
                    (''correction_type'', PStr ''spelling''), (''reasoning'', PNone)])
      else Inl JSONDecodeError)"

definition scripted_env :: "assistant_message \<Rightarrow> env" where
  "scripted_env am =
     \<lparr>llm = (\<lambda>i msgs. Inr am), json_loads = example_json_loads,
      proofread = (\<lambda>sn txt. Inr (PDict [(''has_errors'', PBool False)]))\<rparr>"

definition text_only :: assistant_message where
  "text_only = \<lparr>content = Some ''Reviewing the deck.'', tool_calls = []\<rparr>"

definition call :: "string \<Rightarrow> string \<Rightarrow> tool_call" where
  "call nm args = \<lparr>call_id = ''call_1'', fn_name = nm, fn_arguments = args\<rparr>"

definition asks :: "string \<Rightarrow> string \<Rightarrow> assistant_message" where
  "asks nm args = \<lparr>content = None, tool_calls = [call nm args]\<rparr>"

section \<open>Evaluation rules and auxiliary lemmas\<close>

lemmas example_defs = text_run_def text_shape_def deck_two_bodies_def example_disk_def fix_teh_def
  example_state_def initial_state_def shape_texts_def

lemmas applier_defs = tool_apply_all_corrections_def open_presentation_def save_presentation_def
  apply_correction_def apply_shape_def apply_paragraph_def apply_run_def py_sub1_def py_int_def
  py_replace_def sublist_code set_run_text_def pptx_escape_def escape_char_def xml_control_def
  hex_digit_def set_left_def emu_ok_def

lemmas more_defs = fix_missing_slide_def align_unparsable_def fix_all_teh_def fix_with_vtab_def
  align_null_def align_too_far_def align_to_250_def placeholder_title_def deck_placeholder_def py_int_of_str_def int_isspace_def
  parse_limited_def MAX_STR_DIGITS_def parse_unsigned_def py_isdigit_def digit_val_def

lemmas align_defs = deck_tied_titles_def text_shape_def text_run_def analyze_alignment_def
  title_positions_of_def py_max_by_count_def left_counts_def standard_left_position_def
  find_most_common_position_def tool_analyze_alignment_def open_presentation_def sublist_code
  enumerate_eq_zip

lemmas loop_defs = run_agent_def run_iteration_def exec_tool_call_def tool_args_of_def
  dispatch_def with_arg_def py_getitem_def TOOLS_def of_type_def MAX_ITERATIONS_def
  tool_add_correction_def tool_analyze_text_for_errors_def tool_mark_complete_def
  scripted_env_def text_only_def asks_def call_def example_json_loads_def
  args_missing_text_def args_missing_reasoning_def args_ill_typed_def args_not_json_def
  never_marks_complete_def

subsection \<open>Replacement in strings\<close>

lemma replace_scan_no_occurrence:
  "\<not> sublist old s \<Longrightarrow> replace_scan old new s = s"
  by (induction s) (auto simp: sublist_Cons_right)

lemma not_sublist_butlast: "old \<noteq> [] \<Longrightarrow> \<not> sublist old (butlast old)"
  using sublist_length_le [of old "butlast old"] by (cases old rule: rev_cases) auto

lemma prefix_drop_eq:
  assumes "prefix old (c # cs)" "old \<noteq> []"
  shows "c # cs = old @ drop (length old - 1) cs"
proof -
  from assms(1) obtain r where r: "c # cs = old @ r" by (auto simp: prefix_def)
  with assms(2) obtain t where t: "old = c # t" by (cases old) auto
  with r have "cs = t @ r" by simp
  then have "drop (length old - 1) cs = r" using t by simp
  with r show ?thesis by simp
qed

lemma replaces_all_Cons:
  assumes "\<not> prefix old (c # s)" and "replaces_all old new s t"
  shows "replaces_all old new (c # s) (c # t)"
  using assms(2)
proof cases
  case no_occurrence
  with assms(1) have "\<not> sublist old (c # s)" by (simp add: sublist_Cons_right)
  with no_occurrence show ?thesis by (auto intro: replaces_all.no_occurrence)
next
  case (leftmost pre rest rest')
  have "\<not> prefix old (c # pre @ butlast old)"
  proof
    assume "prefix old (c # pre @ butlast old)"
    moreover have "prefix (c # pre @ butlast old) (c # pre @ old @ rest)"
      by (cases old rule: rev_cases) auto
    ultimately have "prefix old (c # pre @ old @ rest)" by (rule prefix_order.trans)
    with assms(1) leftmost(1) show False by simp
  qed
  with leftmost(3) have "\<not> sublist old ((c # pre) @ butlast old)"
    by (simp add: sublist_Cons_right)
  from replaces_all.leftmost [OF this leftmost(4)] leftmost(1,2) show ?thesis by simp
qed

lemma replace_scan_replaces_all:
  "old \<noteq> [] \<Longrightarrow> replaces_all old new s (replace_scan old new s)"
proof (induction old new s rule: replace_scan.induct)
  case (1 old new)
  then show ?case by (auto intro: replaces_all.no_occurrence)
next
  case (2 old new c cs)
  show ?case
  proof (cases "prefix old (c # cs)")
    case True
    let ?rest = "drop (length old - 1) cs"
    from True 2 have ih: "replaces_all old new ?rest (replace_scan old new ?rest)" by simp
    have eq: "c # cs = old @ ?rest" by (rule prefix_drop_eq [OF True 2(3)])
    have step: "replace_scan old new (c # cs) = new @ replace_scan old new ?rest"
      using True by simp
    have "\<not> sublist old ([] @ butlast old)" using 2(3) by (simp add: not_sublist_butlast)
    from replaces_all.leftmost [OF this ih]
    have "replaces_all old new (old @ ?rest) (new @ replace_scan old new ?rest)" by simp
    then show ?thesis unfolding step eq [symmetric] .
  next
    case False
    with 2 have "replaces_all old new cs (replace_scan old new cs)" by simp
    from replaces_all_Cons [OF False this] False show ?thesis by simp
  qed
qed

lemma replace_scan_leftmost:
  assumes "\<not> sublist old (pre @ butlast old)"
  shows "replace_scan old new (pre @ old @ rest) = pre @ new @ replace_scan old new rest"
  using assms
proof (induction pre)
  case Nil
  then have "old \<noteq> []" by auto
  then obtain a t where "old = a # t" by (cases old) auto
  then show ?case by simp
next
  case (Cons a pre)
  then have np: "\<not> prefix old (a # pre @ butlast old)"
    and ns: "\<not> sublist old (pre @ butlast old)"
    by (simp_all add: sublist_Cons_right)
  from np have old: "old \<noteq> []" by auto
  have "\<not> prefix old (a # pre @ old @ rest)"
  proof
    assume p: "prefix old (a # pre @ old @ rest)"
    have q: "prefix (a # pre @ butlast old) (a # pre @ old @ rest)"
      by (cases old rule: rev_cases) auto
    have "length old \<le> length (a # pre @ butlast old)" using old by simp
    from prefix_length_prefix [OF p q this] np show False by simp
  qed
  with Cons.IH [OF ns] show ?case by simp
qed

lemma replaces_all_unique:
  "replaces_all old new s t \<Longrightarrow> t = replace_scan old new s"
proof (induction rule: replaces_all.induct)
  case (no_occurrence s)
  then show ?case by (simp add: replace_scan_no_occurrence)
next
  case (leftmost pre rest rest')
  then show ?case by (simp add: replace_scan_leftmost)
qed

lemma replaces_all_iff:
  "old \<noteq> [] \<Longrightarrow> replaces_all old new s t \<longleftrightarrow> t = py_replace s old new"
  using replaces_all_unique replace_scan_replaces_all by (auto simp: py_replace_def)

lemma py_replace_no_occurrence: "\<not> sublist old s \<Longrightarrow> py_replace s old new = s"
  by (cases "old = []") (auto simp: py_replace_def replace_scan_no_occurrence)

subsection \<open>The two assignments of the library\<close>

lemma escape_char_plain: "\<not> xml_control c \<Longrightarrow> escape_char c = [c]"
  by (simp add: escape_char_def)

lemma pptx_escape_plain: "no_control s \<Longrightarrow> pptx_escape s = s"
  by (induction s) (simp_all add: pptx_escape_def no_control_def escape_char_plain)

lemma no_control_append [simp]: "no_control (s @ t) \<longleftrightarrow> no_control s \<and> no_control t"
  by (simp add: no_control_def)

lemma no_control_drop: "no_control s \<Longrightarrow> no_control (drop n s)"
  by (simp add: no_control_def list_all_iff) (meson in_set_dropD)

lemma no_control_replace_scan:
  "no_control s \<Longrightarrow> no_control new \<Longrightarrow> no_control (replace_scan old new s)"
proof (induction old new s rule: replace_scan.induct)
  case (1 old new)
  then show ?case by simp
next
  case (2 old new c cs)
  from "2.prems"(1) have c: "\<not> xml_control c" and cs: "no_control cs"
    by (simp_all add: no_control_def)
  show ?case
  proof (cases "prefix old (c # cs)")
    case True
    from "2.IH"(1) [OF True no_control_drop [OF cs] "2.prems"(2)] True "2.prems"(2)
    show ?thesis by simp
  next
    case False
    from "2.IH"(2) [OF False cs "2.prems"(2)] False c
    show ?thesis by (simp add: no_control_def)
  qed
qed

lemma no_control_interleave:
  "no_control s \<Longrightarrow> no_control new \<Longrightarrow> no_control (concat (map (\<lambda>c. c # new) s))"
  by (induction s) (simp_all add: no_control_def)

lemma no_control_py_replace:
  "no_control s \<Longrightarrow> no_control new \<Longrightarrow> no_control (py_replace s old new)"
  by (simp add: py_replace_def no_control_replace_scan no_control_interleave)

lemma set_left_error: "set_left sh v = Inl e \<Longrightarrow> e = ValueError"
  by (simp add: set_left_def split: if_splits)

subsection \<open>The loops of the applier\<close>

lemma for_each_map:
  "(\<And>x. x \<in> set xs \<Longrightarrow> f x = Inr (g x, h x))
     \<Longrightarrow> for_each f xs = Inr (map g xs, concat (map h xs))"
  by (induction xs) auto



lemma edit_run_text:
  assumes "original_text c = PStr orig" "corrected_text c = PStr corr"
  shows "edit_run c r =
           (if sublist orig (run_text r)
            then r\<lparr>run_text := pptx_escape (py_replace (run_text r) orig corr)\<rparr> else r)"
  using assms by (simp add: edit_run_def set_run_text_def)

lemma apply_run_text:
  assumes "original_text c = PStr orig" "corrected_text c = PStr corr"
  shows "apply_run c r =
           Inr (edit_run c r,
                if sublist orig (run_text r)
                then [TextDetail (slide_number c) (correction_type c) (PStr orig) (PStr corr)]
                else [])"
  using assms by (simp add: apply_run_def edit_run_def)

lemma apply_paragraph_text:
  assumes "original_text c = PStr orig" "corrected_text c = PStr corr"
  shows "apply_paragraph c p =
           Inr (p\<lparr>runs := map (edit_run c) (runs p)\<rparr>,
                concat (map (\<lambda>r. if sublist orig (run_text r)
                   then [TextDetail (slide_number c) (correction_type c) (PStr orig) (PStr corr)]
                   else []) (runs p)))"
  unfolding apply_paragraph_def
  by (subst for_each_map [where g = "edit_run c"
        and h = "\<lambda>r. if sublist orig (run_text r)
                   then [TextDetail (slide_number c) (correction_type c) (PStr orig) (PStr corr)]
                   else []"])
     (simp_all add: apply_run_text [OF assms])

lemma apply_shape_text:
  assumes "original_text c = PStr orig" "corrected_text c = PStr corr"
    and "correction_type c \<noteq> PStr ''alignment''"
  shows "\<exists>ds. apply_shape c sh = Inr (edit_shape c sh, ds)"
proof (cases "text_frame sh")
  case None
  then show ?thesis using assms(3) by (simp add: apply_shape_def edit_shape_def)
next
  case (Some paras)
  have "for_each (apply_paragraph c) paras =
      Inr (map (\<lambda>p. p\<lparr>runs := map (edit_run c) (runs p)\<rparr>) paras,
           concat (map (\<lambda>p. concat (map (\<lambda>r. if sublist orig (run_text r)
                   then [TextDetail (slide_number c) (correction_type c) (PStr orig) (PStr corr)]
                   else []) (runs p))) paras))"
    by (rule for_each_map) (simp add: apply_paragraph_text [OF assms(1,2)])
  with Some assms(3) show ?thesis by (simp add: apply_shape_def edit_shape_def)
qed










subsection \<open>Counting left positions\<close>

lemma first_seen_snoc:
  "first_seen (ls @ [x]) = (if x \<in> set ls then first_seen ls else first_seen ls @ [x])"
  by (simp add: first_seen_def)

lemma set_first_seen [simp]: "set (first_seen ls) = set ls"
  by (simp add: first_seen_def)

lemma distinct_first_seen [simp]: "distinct (first_seen ls)"
  by (simp add: first_seen_def)

lemma dict_incr_map:
  "distinct ks \<Longrightarrow>
     dict_incr (map (\<lambda>k. (k, f k)) ks) x =
       (if x \<in> set ks then map (\<lambda>k. (k, if k = x then f k + 1 else f k)) ks
        else map (\<lambda>k. (k, f k)) ks @ [(x, 1)])"
  by (induction ks) auto

lemma left_counts_first_seen:
  "left_counts ls = map (\<lambda>k. (k, int (count_list ls k))) (first_seen ls)"
proof (induction ls rule: rev_induct)
  case Nil
  then show ?case by (simp add: left_counts_def first_seen_def)
next
  case (snoc x ls)
  have "left_counts (ls @ [x]) = dict_incr (left_counts ls) x"
    by (simp add: left_counts_def)
  also have "\<dots> = dict_incr (map (\<lambda>k. (k, int (count_list ls k))) (first_seen ls)) x"
    by (simp only: snoc.IH)
  also have "\<dots> = map (\<lambda>k. (k, int (count_list (ls @ [x]) k))) (first_seen (ls @ [x]))"
    by (subst dict_incr_map) (auto simp: first_seen_snoc count_list_0_iff)
  finally show ?case .
qed

lemma max_item_spec:
  "\<exists>pre post. best # xs = pre @ max_item best xs # post
      \<and> (\<forall>y \<in> set pre. snd y < snd (max_item best xs))
      \<and> (\<forall>y \<in> set post. snd y \<le> snd (max_item best xs))"
proof (induction xs arbitrary: best)
  case Nil
  show ?case by (rule exI [of _ "[]"], rule exI [of _ "[]"]) simp
next
  case (Cons x xs)
  define b where "b = (if snd best < snd x then x else best)"
  define m where "m = max_item b xs"
  from Cons [of b] obtain pre post where
    sp: "b # xs = pre @ m # post" and
    lt: "\<forall>y \<in> set pre. snd y < snd m" and le: "\<forall>y \<in> set post. snd y \<le> snd m"
    unfolding m_def by blast
  have m: "max_item best (x # xs) = m" by (simp add: m_def b_def)
  have "\<exists>pre' post'. best # x # xs = pre' @ m # post'
      \<and> (\<forall>y \<in> set pre'. snd y < snd m) \<and> (\<forall>y \<in> set post'. snd y \<le> snd m)"
  proof (cases "snd best < snd x")
    case True
    then have "b = x" by (simp add: b_def)
    with sp have x: "x # xs = pre @ m # post" by simp
    then have "snd x \<le> snd m" using lt by (cases pre) auto
    with True have "snd best < snd m" by simp
    with x lt le have "best # x # xs = (best # pre) @ m # post
        \<and> (\<forall>y \<in> set (best # pre). snd y < snd m) \<and> (\<forall>y \<in> set post. snd y \<le> snd m)"
      by simp
    then show ?thesis by blast
  next
    case False
    then have "b = best" by (simp add: b_def)
    with sp have bx: "best # xs = pre @ m # post" by simp
    show ?thesis
    proof (cases pre)
      case Nil
      with bx have "m = best" "xs = post" by simp_all
      with False le have "best # x # xs = [] @ m # (x # post)
          \<and> (\<forall>y \<in> set []. snd y < snd m) \<and> (\<forall>y \<in> set (x # post). snd y \<le> snd m)"
        by auto
      then show ?thesis by blast
    next
      case (Cons p pre')
      with bx have p: "p = best" and xs: "xs = pre' @ m # post" by simp_all
      from lt Cons p have "snd best < snd m" by simp
      with False have "snd x < snd m" by simp
      with xs lt le Cons p have "best # x # xs = (best # x # pre') @ m # post
          \<and> (\<forall>y \<in> set (best # x # pre'). snd y < snd m) \<and> (\<forall>y \<in> set post. snd y \<le> snd m)"
        by auto
      then show ?thesis by blast
    qed
  qed
  then show ?case unfolding m .
qed

lemma first_seen_split:
  "first_seen ls = kpre @ m # kpost \<Longrightarrow>
     \<exists>pre post. ls = pre @ m # post \<and> m \<notin> set pre \<and> set pre \<subseteq> set kpre"
proof (induction ls arbitrary: kpost rule: rev_induct)
  case Nil
  then show ?case by (simp add: first_seen_def)
next
  case (snoc x ls)
  show ?case
  proof (cases "x \<in> set ls")
    case True
    with snoc.prems have "first_seen ls = kpre @ m # kpost" by (simp add: first_seen_snoc)
    from snoc.IH [OF this] obtain pre post where
      "ls = pre @ m # post" "m \<notin> set pre" "set pre \<subseteq> set kpre" by blast
    then have "ls @ [x] = pre @ m # (post @ [x]) \<and> m \<notin> set pre \<and> set pre \<subseteq> set kpre" by simp
    then show ?thesis by blast
  next
    case False
    with snoc.prems have eq: "first_seen ls @ [x] = kpre @ m # kpost" by (simp add: first_seen_snoc)
    show ?thesis
    proof (cases kpost rule: rev_cases)
      case Nil
      with eq have k: "first_seen ls = kpre" and mx: "m = x" by simp_all
      from k have "set ls = set kpre" using set_first_seen [of ls] by simp
      with mx False have "ls @ [x] = ls @ m # [] \<and> m \<notin> set ls \<and> set ls \<subseteq> set kpre" by simp
      then show ?thesis by blast
    next
      case (snoc kp y)
      with eq have "first_seen ls = kpre @ m # kp" by simp
      from snoc.IH [OF this] obtain pre post where
        "ls = pre @ m # post" "m \<notin> set pre" "set pre \<subseteq> set kpre" by blast
      then have "ls @ [x] = pre @ m # (post @ [x]) \<and> m \<notin> set pre \<and> set pre \<subseteq> set kpre" by simp
      then show ?thesis by blast
    qed
  qed
qed

lemma most_common_first_of_tied:
  assumes "ls \<noteq> []"
  shows "\<exists>m. py_max_by_count (left_counts ls) = Inr (m, int (count_list ls m))
      \<and> (\<forall>v \<in> set ls. count_list ls v \<le> count_list ls m)
      \<and> (\<exists>pre post. ls = pre @ m # post \<and> m \<notin> set pre
            \<and> (\<forall>v \<in> set pre. count_list ls v < count_list ls m))"
proof -
  let ?g = "\<lambda>k. (k, int (count_list ls k))"
  have d: "left_counts ls = map ?g (first_seen ls)" by (rule left_counts_first_seen)
  from assms have "first_seen ls \<noteq> []" using set_first_seen [of ls] by (metis set_empty)
  then obtain k ks where ks: "first_seen ls = k # ks" by (cases "first_seen ls") auto
  let ?r = "max_item (?g k) (map ?g ks)"
  have res: "py_max_by_count (left_counts ls) = Inr ?r"
    by (simp add: d ks py_max_by_count_def)
  from max_item_spec [of "?g k" "map ?g ks"] obtain dpre dpost where
    sp: "map ?g (first_seen ls) = dpre @ ?r # dpost" and
    lt: "\<forall>y \<in> set dpre. snd y < snd ?r" and le: "\<forall>y \<in> set dpost. snd y \<le> snd ?r"
    unfolding ks by auto
  from sp obtain kpre m kpost where
    keys: "first_seen ls = kpre @ m # kpost" and dpre: "dpre = map ?g kpre"
    and r: "?r = ?g m" and dpost: "dpost = map ?g kpost"
    by (auto simp: map_eq_append_conv map_eq_Cons_conv)
  from lt dpre r have lt': "\<forall>v \<in> set kpre. count_list ls v < count_list ls m" by simp
  from le dpost r have le': "\<forall>v \<in> set kpost. count_list ls v \<le> count_list ls m" by simp
  have "set ls = set kpre \<union> {m} \<union> set kpost" using set_first_seen [of ls] keys by auto
  with lt' le' have all: "\<forall>v \<in> set ls. count_list ls v \<le> count_list ls m" by auto
  from first_seen_split [OF keys] lt'
  have split: "\<exists>pre post. ls = pre @ m # post \<and> m \<notin> set pre
            \<and> (\<forall>v \<in> set pre. count_list ls v < count_list ls m)"
    by blast
  from res r have res': "py_max_by_count (left_counts ls) = Inr (m, int (count_list ls m))"
    by simp
  show ?thesis by (intro exI [of _ m] conjI) (rule res' all split)+
qed

subsection \<open>What one pass of the loop preserves\<close>

lemma dispatch_frame:
  assumes "dispatch ev fs st nm args = (fs', st', r)"
  shows "iteration st' = iteration st
       \<and> (nm \<noteq> ''mark_complete'' \<longrightarrow> is_complete st' = is_complete st)"
  using assms
  by (auto simp: dispatch_def with_arg_def tool_extract_slide_content_def
      tool_analyze_alignment_def tool_apply_all_corrections_def tool_mark_complete_def
      tool_analyze_text_for_errors_def tool_add_correction_def Let_def
      split: if_splits sum.splits prod.splits)

lemma exec_tool_call_frame:
  assumes "exec_tool_call ev fs st tc = (fs', Inr st')"
  shows "iteration st' = iteration st
       \<and> (fn_name tc \<noteq> ''mark_complete'' \<longrightarrow> is_complete st' = is_complete st)"
  using assms
  by (auto simp: exec_tool_call_def split: sum.splits prod.splits dest: dispatch_frame)

lemma exec_tool_calls_frame:
  assumes "exec_tool_calls ev fs st tcs = (fs', Inr st')"
  shows "iteration st' = iteration st
       \<and> ((\<forall>tc \<in> set tcs. fn_name tc \<noteq> ''mark_complete'') \<longrightarrow> is_complete st' = is_complete st)"
  using assms
proof (induction tcs arbitrary: fs st)
  case Nil
  then show ?case by simp
next
  case (Cons tc tcs)
  from Cons.prems obtain f1 s1 where
    one: "exec_tool_call ev fs st tc = (f1, Inr s1)" and
    rest: "exec_tool_calls ev f1 s1 tcs = (fs', Inr st')"
    by (auto split: sum.splits prod.splits)
  from exec_tool_call_frame [OF one] Cons.IH [OF rest] show ?case by auto
qed

lemma run_iteration_frame:
  assumes "run_iteration ev fs st = (fs', Inr st')"
  shows "iteration st' = iteration st + 1
       \<and> (never_marks_complete ev \<longrightarrow> is_complete st' = is_complete st)"
proof -
  from assms obtain am where am: "llm ev (iteration st + 1) (messages st) = Inr am"
    by (auto simp: run_iteration_def Let_def split: sum.splits)
  let ?st2 = "st\<lparr>iteration := iteration st + 1,
                  messages := messages st @ [AssistantMsg am]\<rparr>"
  show ?thesis
  proof (cases "tool_calls am = []")
    case True
    with assms am show ?thesis by (auto simp: run_iteration_def Let_def)
  next
    case False
    with assms am have "exec_tool_calls ev fs ?st2 (tool_calls am) = (fs', Inr st')"
      by (simp add: run_iteration_def Let_def)
    from exec_tool_calls_frame [OF this] am show ?thesis
      by (auto simp: never_marks_complete_def)
  qed
qed

lemma agent_loop_exit:
  "iteration st \<le> MAX_ITERATIONS \<Longrightarrow> agent_loop ev fs st = (fs', Inr st')
     \<Longrightarrow> is_complete st' \<or> iteration st' = MAX_ITERATIONS"
proof (induction ev fs st rule: agent_loop.induct)
  case (1 ev fs st)
  note bound = "1.prems"(1) and result = "1.prems"(2)
  show ?case
  proof (cases "\<not> is_complete st \<and> iteration st < MAX_ITERATIONS")
    case False
    with bound result show ?thesis by (auto simp: agent_loop.simps)
  next
    case True
    with result obtain f1 s1 where it: "run_iteration ev fs st = (f1, Inr s1)"
      by (subst (asm) agent_loop.simps) (auto split: sum.splits prod.splits)
    from run_iteration_frame [OF it] True
    have s1: "iteration s1 \<le> MAX_ITERATIONS" by simp
    show ?thesis
    proof (cases "is_complete s1")
      case finished: True
      with it True result have "st' = s1" by (subst (asm) agent_loop.simps) simp
      with finished show ?thesis by simp
    next
      case running: False
      with it True result have rec: "agent_loop ev f1 s1 = (fs', Inr st')"
        by (subst (asm) agent_loop.simps) simp
      from "1.IH" [OF True it [symmetric] refl running s1 rec] show ?thesis .
    qed
  qed
qed

lemma agent_loop_flag:
  "never_marks_complete ev \<Longrightarrow> \<not> is_complete st
     \<Longrightarrow> agent_loop ev fs st = (fs', Inr st') \<Longrightarrow> \<not> is_complete st'"
proof (induction ev fs st rule: agent_loop.induct)
  case (1 ev fs st)
  note never = "1.prems"(1) and running = "1.prems"(2) and result = "1.prems"(3)
  show ?case
  proof (cases "iteration st < MAX_ITERATIONS")
    case False
    with running result show ?thesis by (simp add: agent_loop.simps)
  next
    case True
    with running result obtain f1 s1 where it: "run_iteration ev fs st = (f1, Inr s1)"
      by (subst (asm) agent_loop.simps) (auto split: sum.splits prod.splits)
    from run_iteration_frame [OF it] never running have s1: "\<not> is_complete s1" by auto
    with it True running result have rec: "agent_loop ev f1 s1 = (fs', Inr st')"
      by (subst (asm) agent_loop.simps) simp
    from "1.IH" [OF _ it [symmetric] refl s1 never s1 rec] running True
    show ?thesis by simp
  qed
qed

lemma agent_loop_text_only:
  "(\<forall>i msgs. \<exists>am. llm ev i msgs = Inr am \<and> tool_calls am = [])
     \<Longrightarrow> \<not> is_complete st \<Longrightarrow> iteration st \<le> MAX_ITERATIONS
     \<Longrightarrow> \<exists>st'. agent_loop ev fs st = (fs, Inr st') \<and> iteration st' = MAX_ITERATIONS
            \<and> \<not> is_complete st' \<and> applied_corrections st' = applied_corrections st
            \<and> output_path st' = output_path st"
proof (induction ev fs st rule: agent_loop.induct)
  case (1 ev fs st)
  note only_text = "1.prems"(1) and running = "1.prems"(2) and bound = "1.prems"(3)
  show ?case
  proof (cases "iteration st < MAX_ITERATIONS")
    case False
    with running bound show ?thesis by (simp add: agent_loop.simps)
  next
    case True
    from only_text obtain am where am: "llm ev (iteration st + 1) (messages st) = Inr am"
      "tool_calls am = []" by blast
    define s1 where "s1 = st\<lparr>iteration := iteration st + 1,
                                messages := messages st @ [AssistantMsg am]\<rparr>"
    from am have it: "run_iteration ev fs st = (fs, Inr s1)"
      by (simp add: run_iteration_def Let_def s1_def)
    have s1: "\<not> is_complete s1" "iteration s1 \<le> MAX_ITERATIONS"
      using running True by (simp_all add: s1_def)
    from "1.IH" [OF _ it [symmetric] refl s1(1) only_text s1] running True
    obtain st' where "agent_loop ev fs s1 = (fs, Inr st')" "iteration st' = MAX_ITERATIONS"
      "\<not> is_complete st'" "applied_corrections st' = applied_corrections s1"
      "output_path st' = output_path s1" by auto
    moreover have "agent_loop ev fs st = agent_loop ev fs s1"
      using it running True s1(1) by (subst agent_loop.simps) simp
    ultimately show ?thesis by (simp add: s1_def)
  qed
qed

section \<open>The correction applier: claims\<close>

text \<open>
  Claim C2. When \<^verbatim>\<open>apply_all_corrections\<close> is called with a non-empty pending list
  and returns, the document has been saved to the output path, the pending list is
  empty and every correction that was pending has been appended to the applied list.
  When the call raises instead (the document cannot be opened, a correction is
  ill-typed, or the save fails), the state and the files are as before the call: no
  correction is in the applied list before the save has succeeded.
\<close>

theorem pending_moved_after_save:
  assumes "pending_corrections st \<noteq> []"
    and "tool_apply_all_corrections fs st = (fs', st', r)"
  shows "(\<forall>res. r = Inr res \<longrightarrow>
            pending_corrections st' = []
          \<and> applied_corrections st' = applied_corrections st @ pending_corrections st
          \<and> set (pending_corrections st) \<subseteq> set (applied_corrections st')
          \<and> output_path st \<notin> unwritable fs
          \<and> (\<exists>prs. files fs' (output_path st) = Some prs))
       \<and> (\<forall>e. r = Inl e \<longrightarrow> st' = st \<and> fs' = fs)"
  using assms
  by (auto simp: tool_apply_all_corrections_def save_presentation_def
      split: sum.splits prod.splits if_splits)

text \<open>
  C2 on the example: the call succeeds on a writable output path and moves the
  correction; on a path that cannot be written it raises and changes nothing.
\<close>

theorem pending_moved_after_save_witness:
  "pending_corrections (example_state [fix_teh]) \<noteq> []
   \<and> (\<exists>fs' st' res. tool_apply_all_corrections example_disk (example_state [fix_teh]) = (fs', st', Inr res)
        \<and> pending_corrections st' = [] \<and> applied_corrections st' = [fix_teh])
   \<and> (\<exists>e. tool_apply_all_corrections example_disk
              ((example_state [fix_teh])\<lparr>output_path := ''locked.pptx''\<rparr>)
            = (example_disk, (example_state [fix_teh])\<lparr>output_path := ''locked.pptx''\<rparr>, Inl e))"
proof -
  let ?st = "example_state [fix_teh]"
  let ?locked = "?st\<lparr>output_path := ''locked.pptx''\<rparr>"
  have ne: "pending_corrections ?st \<noteq> []" by (simp add: example_state_def)
  obtain fs' st' res where run: "tool_apply_all_corrections example_disk ?st = (fs', st', Inr res)"
    by (simp add: example_defs applier_defs)
  from pending_moved_after_save [OF ne run]
  have ok: "pending_corrections st' = [] \<and> applied_corrections st' = [fix_teh]"
    by (simp add: example_state_def initial_state_def)
  have ne': "pending_corrections ?locked \<noteq> []" by (simp add: example_state_def)
  obtain fs2 st2 e where fail: "tool_apply_all_corrections example_disk ?locked = (fs2, st2, Inl e)"
    by (simp add: example_defs applier_defs)
  from pending_moved_after_save [OF ne' fail] have "st2 = ?locked \<and> fs2 = example_disk" by simp
  with ne run ok fail show ?thesis by blast
qed

text \<open>
  Claim C3. With an empty pending list \<^verbatim>\<open>apply_all_corrections\<close> returns the
  no-op result and leaves the files and the state untouched (the document is not
  even opened). So when a first call has returned, the pending list is empty, and a
  second call is this no-op: the files, the output file among them, are what the
  first call left.
\<close>

theorem second_apply_is_noop:
  "(pending_corrections st = [] \<longrightarrow>
      tool_apply_all_corrections fs st = (fs, st, Inr NoCorrections))
 \<and> (\<forall>fs1 st1 res. tool_apply_all_corrections fs st = (fs1, st1, Inr res) \<longrightarrow>
        pending_corrections st1 = [] \<and>
        tool_apply_all_corrections fs1 st1 = (fs1, st1, Inr NoCorrections))"
  by (auto simp: tool_apply_all_corrections_def save_presentation_def
      split: sum.splits prod.splits if_splits)

text \<open>
  C3 on the example: a first call that applies a correction, then the no-op; and the
  no-op on a disk with no file at all, where opening the document would raise.
\<close>

theorem second_apply_is_noop_witness:
  "\<exists>fs1 st1 res. tool_apply_all_corrections example_disk (example_state [fix_teh]) = (fs1, st1, Inr res)
     \<and> res \<noteq> NoCorrections
     \<and> tool_apply_all_corrections fs1 st1 = (fs1, st1, Inr NoCorrections)
     \<and> tool_apply_all_corrections \<lparr>files = Map.empty, unwritable = UNIV\<rparr> (example_state [])
         = (\<lparr>files = Map.empty, unwritable = UNIV\<rparr>, example_state [], Inr NoCorrections)"
proof -
  obtain fs1 st1 n ds where
    run: "tool_apply_all_corrections example_disk (example_state [fix_teh])
            = (fs1, st1, Inr (ApplySuccess n ds ''out.pptx''))"
    by (simp add: example_defs applier_defs)
  have e: "pending_corrections (example_state []) = []" by (simp add: example_defs)
  from second_apply_is_noop [of "example_state [fix_teh]" example_disk] run
  have "tool_apply_all_corrections fs1 st1 = (fs1, st1, Inr NoCorrections)" by blast
  moreover from second_apply_is_noop [of "example_state []" "\<lparr>files = Map.empty, unwritable = UNIV\<rparr>"] e
  have "tool_apply_all_corrections \<lparr>files = Map.empty, unwritable = UNIV\<rparr> (example_state [])
         = (\<lparr>files = Map.empty, unwritable = UNIV\<rparr>, example_state [], Inr NoCorrections)"
    by blast
  ultimately show ?thesis using run by blast
qed




text \<open>
  Claim C6, as the code has it. A text correction (any category but \<open>alignment\<close>)
  applied to a shape of the given name keeps the paragraphs and runs of the text
  frame in place and changes only the text of runs. A run that does not contain the
  original text is unchanged. A run that contains it is assigned the text in which
  all occurrences of the original text are replaced by the corrected text, and the
  library stores each control character of that text (codes 0 to 8 and 11 to 31) as
  \<^verbatim>\<open>_xHHHH_\<close>. So when the replaced text has no such character, which is so when
  neither the run's text nor the corrected text has one, all occurrences are replaced
  by the corrected text and the rest of the text is unchanged
  (\<^const>\<open>replaces_all\<close>). For an empty original text, which every run contains,
  Python's \<^verbatim>\<open>replace\<close> puts the corrected text before every character and at the
  end. The run ``Teh quikc tets'' with the correction of ``Teh'' to ``the'' becomes
  ``the quikc tets''.
\<close>

theorem text_correction_replaces_every_occurrence:
  assumes "shape_name c = PStr (name sh)" and "correction_type c \<noteq> PStr ''alignment''"
    and "original_text c = PStr orig" and "corrected_text c = PStr corr"
    and "text_frame sh = Some paras"
  shows "(\<exists>paras' ds. apply_shape c sh = Inr (sh\<lparr>text_frame := Some paras'\<rparr>, ds)
      \<and> length paras' = length paras
      \<and> (\<forall>i < length paras.
            level (paras' ! i) = level (paras ! i)
          \<and> length (runs (paras' ! i)) = length (runs (paras ! i))
          \<and> (\<forall>j < length (runs (paras ! i)).
               let r = runs (paras ! i) ! j; r' = runs (paras' ! i) ! j
               in bold r' = bold r \<and> italic r' = italic r
                \<and> (sublist orig (run_text r) \<longrightarrow>
                     run_text r' = pptx_escape (py_replace (run_text r) orig corr))
                \<and> (sublist orig (run_text r) \<and> orig \<noteq> []
                     \<and> no_control (py_replace (run_text r) orig corr) \<longrightarrow>
                     replaces_all orig corr (run_text r) (run_text r'))
                \<and> (orig = [] \<and> no_control (py_replace (run_text r) orig corr) \<longrightarrow>
                     run_text r' = corr @ concat (map (\<lambda>ch. ch # corr) (run_text r)))
                \<and> (no_control (run_text r) \<and> no_control corr \<longrightarrow>
                     no_control (py_replace (run_text r) orig corr))
                \<and> (\<not> sublist orig (run_text r) \<longrightarrow> r' = r))))
    \<and> apply_run fix_teh (text_run ''Teh quikc tets'')
        = Inr (text_run ''the quikc tets'',
               [TextDetail (PInt 1) (PStr ''spelling'') (PStr ''Teh'') (PStr ''the'')])"
proof -
  let ?er = "\<lambda>r. if sublist orig (run_text r)
      then r\<lparr>run_text := pptx_escape (py_replace (run_text r) orig corr)\<rparr> else r"
  let ?ep = "\<lambda>p. p\<lparr>runs := map ?er (runs p)\<rparr>"
  have er: "edit_run c = ?er"
    by (rule ext) (simp add: edit_run_text [OF assms(3,4)])
  from apply_shape_text [OF assms(3,4,2), of sh] assms(1,2,5)
  obtain ds where res: "apply_shape c sh = Inr (sh\<lparr>text_frame := Some (map ?ep paras)\<rparr>, ds)"
    by (auto simp: edit_shape_def er)
  have ra: "orig \<noteq> [] \<Longrightarrow> no_control (py_replace t orig corr)
      \<Longrightarrow> replaces_all orig corr t (pptx_escape (py_replace t orig corr))" for t
    by (simp add: pptx_escape_plain replaces_all_iff)
  have em: "no_control (py_replace t [] corr)
      \<Longrightarrow> pptx_escape (py_replace t [] corr) = corr @ concat (map (\<lambda>ch. ch # corr) t)" for t
    by (simp add: pptx_escape_plain) (simp add: py_replace_def)
  have nc: "no_control t \<Longrightarrow> no_control corr \<Longrightarrow> no_control (py_replace t orig corr)" for t
    by (rule no_control_py_replace)
  have run: "bold (?er r) = bold r \<and> italic (?er r) = italic r
      \<and> (sublist orig (run_text r) \<longrightarrow>
           run_text (?er r) = pptx_escape (py_replace (run_text r) orig corr))
      \<and> (sublist orig (run_text r) \<and> orig \<noteq> []
           \<and> no_control (py_replace (run_text r) orig corr) \<longrightarrow>
           replaces_all orig corr (run_text r) (run_text (?er r)))
      \<and> (orig = [] \<and> no_control (py_replace (run_text r) orig corr) \<longrightarrow>
           run_text (?er r) = corr @ concat (map (\<lambda>ch. ch # corr) (run_text r)))
      \<and> (no_control (run_text r) \<and> no_control corr \<longrightarrow>
           no_control (py_replace (run_text r) orig corr))
      \<and> (\<not> sublist orig (run_text r) \<longrightarrow> ?er r = r)" for r :: run
  proof (cases "sublist orig (run_text r)")
    case True
    then show ?thesis using ra [of "run_text r"] em [of "run_text r"] nc [of "run_text r"]
      by auto
  next
    case False
    then have "orig \<noteq> []" by auto
    with False show ?thesis using nc [of "run_text r"] by auto
  qed
  have "\<forall>i < length paras.
            level (map ?ep paras ! i) = level (paras ! i)
          \<and> length (runs (map ?ep paras ! i)) = length (runs (paras ! i))
          \<and> (\<forall>j < length (runs (paras ! i)).
               let r = runs (paras ! i) ! j; r' = runs (map ?ep paras ! i) ! j
               in bold r' = bold r \<and> italic r' = italic r
                \<and> (sublist orig (run_text r) \<longrightarrow>
                     run_text r' = pptx_escape (py_replace (run_text r) orig corr))
                \<and> (sublist orig (run_text r) \<and> orig \<noteq> []
                     \<and> no_control (py_replace (run_text r) orig corr) \<longrightarrow>
                     replaces_all orig corr (run_text r) (run_text r'))
                \<and> (orig = [] \<and> no_control (py_replace (run_text r) orig corr) \<longrightarrow>
                     run_text r' = corr @ concat (map (\<lambda>ch. ch # corr) (run_text r)))
                \<and> (no_control (run_text r) \<and> no_control corr \<longrightarrow>
                     no_control (py_replace (run_text r) orig corr))
                \<and> (\<not> sublist orig (run_text r) \<longrightarrow> r' = r))"
  proof (intro allI impI)
    fix i assume i: "i < length paras"
    have "\<forall>j < length (runs (paras ! i)).
               let r = runs (paras ! i) ! j; r' = map ?er (runs (paras ! i)) ! j
               in bold r' = bold r \<and> italic r' = italic r
                \<and> (sublist orig (run_text r) \<longrightarrow>
                     run_text r' = pptx_escape (py_replace (run_text r) orig corr))
                \<and> (sublist orig (run_text r) \<and> orig \<noteq> []
                     \<and> no_control (py_replace (run_text r) orig corr) \<longrightarrow>
                     replaces_all orig corr (run_text r) (run_text r'))
                \<and> (orig = [] \<and> no_control (py_replace (run_text r) orig corr) \<longrightarrow>
                     run_text r' = corr @ concat (map (\<lambda>ch. ch # corr) (run_text r)))
                \<and> (no_control (run_text r) \<and> no_control corr \<longrightarrow>
                     no_control (py_replace (run_text r) orig corr))
                \<and> (\<not> sublist orig (run_text r) \<longrightarrow> r' = r)"
    proof (intro allI impI)
      fix j assume j: "j < length (runs (paras ! i))"
      from run [of "runs (paras ! i) ! j"]
      show "let r = runs (paras ! i) ! j; r' = map ?er (runs (paras ! i)) ! j
               in bold r' = bold r \<and> italic r' = italic r
                \<and> (sublist orig (run_text r) \<longrightarrow>
                     run_text r' = pptx_escape (py_replace (run_text r) orig corr))
                \<and> (sublist orig (run_text r) \<and> orig \<noteq> []
                     \<and> no_control (py_replace (run_text r) orig corr) \<longrightarrow>
                     replaces_all orig corr (run_text r) (run_text r'))
                \<and> (orig = [] \<and> no_control (py_replace (run_text r) orig corr) \<longrightarrow>
                     run_text r' = corr @ concat (map (\<lambda>ch. ch # corr) (run_text r)))
                \<and> (no_control (run_text r) \<and> no_control corr \<longrightarrow>
                     no_control (py_replace (run_text r) orig corr))
                \<and> (\<not> sublist orig (run_text r) \<longrightarrow> r' = r)"
        unfolding Let_def nth_map [OF j] .
    qed
    with i show "level (map ?ep paras ! i) = level (paras ! i)
          \<and> length (runs (map ?ep paras ! i)) = length (runs (paras ! i))
          \<and> (\<forall>j < length (runs (paras ! i)).
               let r = runs (paras ! i) ! j; r' = runs (map ?ep paras ! i) ! j
               in bold r' = bold r \<and> italic r' = italic r
                \<and> (sublist orig (run_text r) \<longrightarrow>
                     run_text r' = pptx_escape (py_replace (run_text r) orig corr))
                \<and> (sublist orig (run_text r) \<and> orig \<noteq> []
                     \<and> no_control (py_replace (run_text r) orig corr) \<longrightarrow>
                     replaces_all orig corr (run_text r) (run_text r'))
                \<and> (orig = [] \<and> no_control (py_replace (run_text r) orig corr) \<longrightarrow>
                     run_text r' = corr @ concat (map (\<lambda>ch. ch # corr) (run_text r)))
                \<and> (no_control (run_text r) \<and> no_control corr \<longrightarrow>
                     no_control (py_replace (run_text r) orig corr))
                \<and> (\<not> sublist orig (run_text r) \<longrightarrow> r' = r))"
      by simp
  qed
  moreover have "apply_run fix_teh (text_run ''Teh quikc tets'')
        = Inr (text_run ''the quikc tets'',
               [TextDetail (PInt 1) (PStr ''spelling'') (PStr ''Teh'') (PStr ''the'')])"
    by (simp add: fix_teh_def text_run_def applier_defs)
  ultimately show ?thesis using res by (intro conjI exI [of _ "map ?ep paras"] exI [of _ ds]) simp_all
qed

text \<open>
  C6 on an example shape with two runs: in the first both occurrences of ``teh'' are
  replaced, the second has none and stays.
\<close>

theorem text_correction_replaces_every_occurrence_witness:
  "shape_name fix_all_teh = PStr (name (text_shape ''Body'' 100 [''teh cat and teh dog'', ''the end'']))
   \<and> correction_type fix_all_teh \<noteq> PStr ''alignment''
   \<and> original_text fix_all_teh = PStr ''teh'' \<and> corrected_text fix_all_teh = PStr ''the''
   \<and> text_frame (text_shape ''Body'' 100 [''teh cat and teh dog'', ''the end''])
       = Some [\<lparr>runs = [text_run ''teh cat and teh dog'', text_run ''the end''], level = 0\<rparr>]
   \<and> sublist ''teh'' ''teh cat and teh dog'' \<and> ''teh'' \<noteq> []
   \<and> no_control (py_replace ''teh cat and teh dog'' ''teh'' ''the'')
   \<and> \<not> sublist ''teh'' ''the end''
   \<and> (\<exists>ds. apply_shape fix_all_teh (text_shape ''Body'' 100 [''teh cat and teh dog'', ''the end''])
            = Inr (text_shape ''Body'' 100 [''the cat and the dog'', ''the end''], ds))
   \<and> replaces_all ''teh'' ''the'' ''teh cat and teh dog'' ''the cat and the dog''"
proof -
  let ?sh = "text_shape ''Body'' 100 [''teh cat and teh dog'', ''the end'']"
  let ?p0 = "\<lparr>runs = [text_run ''teh cat and teh dog'', text_run ''the end''], level = 0\<rparr>"
  have h: "shape_name fix_all_teh = PStr (name ?sh)" "correction_type fix_all_teh \<noteq> PStr ''alignment''"
    "original_text fix_all_teh = PStr ''teh''" "corrected_text fix_all_teh = PStr ''the''"
    "text_frame ?sh = Some [?p0]"
    by (simp_all add: fix_all_teh_def text_shape_def)
  have sub: "sublist ''teh'' ''teh cat and teh dog''" "''teh'' \<noteq> []"
    "no_control (py_replace ''teh cat and teh dog'' ''teh'' ''the'')"
    "\<not> sublist ''teh'' ''the end''"
    by (simp_all add: sublist_code py_replace_def no_control_def xml_control_def)
  from text_correction_replaces_every_occurrence [OF h]
  obtain paras' ds where
    r: "apply_shape fix_all_teh ?sh = Inr (?sh\<lparr>text_frame := Some paras'\<rparr>, ds)"
    and all: "\<forall>j < length (runs ?p0).
               sublist ''teh'' (run_text (runs ?p0 ! j)) \<and> ''teh'' \<noteq> []
               \<and> no_control (py_replace (run_text (runs ?p0 ! j)) ''teh'' ''the'')
               \<longrightarrow> replaces_all ''teh'' ''the''
                     (run_text (runs ?p0 ! j)) (run_text (runs (paras' ! 0) ! j))"
    by (auto simp: Let_def)
  from r have p: "paras' = [\<lparr>runs = [text_run ''the cat and the dog'', text_run ''the end''],
                             level = 0\<rparr>]"
    by (simp add: example_defs applier_defs more_defs)
  from all [rule_format, of 0] sub
  have "replaces_all ''teh'' ''the'' ''teh cat and teh dog'' ''the cat and the dog''"
    unfolding p by (simp add: text_run_def)
  moreover from r p have "apply_shape fix_all_teh ?sh
      = Inr (text_shape ''Body'' 100 [''the cat and the dog'', ''the end''], ds)"
    by (simp add: text_shape_def)
  ultimately show ?thesis using h sub by auto
qed

text \<open>
  Claim C6 as stated (in every run that contains the original text, its occurrences
  are replaced by the corrected text and the rest is unchanged) fails for a corrected
  text with a control character: the correction of ``Teh'' to the three characters
  \<open>a\<close>, vertical tab (code 11), \<open>b\<close> leaves \<^verbatim>\<open>a_x000B_b quikc tets\<close> in the
  run and in the saved document, which is not the run's text with ``Teh'' replaced by
  the corrected text.
\<close>

theorem control_character_counterexample:
  "correction_type fix_with_vtab \<noteq> PStr ''alignment''
   \<and> corrected_text fix_with_vtab = PStr [CHR ''a'', CHR 0x0B, CHR ''b'']
   \<and> sublist ''Teh'' ''Teh quikc tets''
   \<and> apply_run fix_with_vtab (text_run ''Teh quikc tets'')
       = Inr (text_run ''a_x000B_b quikc tets'',
              [TextDetail (PInt 1) (PStr ''spelling'') (PStr ''Teh'')
                 (PStr [CHR ''a'', CHR 0x0B, CHR ''b''])])
   \<and> \<not> replaces_all ''Teh'' [CHR ''a'', CHR 0x0B, CHR ''b'']
         ''Teh quikc tets'' ''a_x000B_b quikc tets''
   \<and> (\<exists>fs' st' n ds prs'.
        tool_apply_all_corrections example_disk (example_state [fix_with_vtab])
          = (fs', st', Inr (ApplySuccess n ds ''out.pptx''))
      \<and> files fs' ''out.pptx'' = Some prs'
      \<and> map shape_texts (shapes (slides prs' ! 0)) =
          [[''Teh Title''], [''a_x000B_b quikc tets''], [''a_x000B_b end'']])"
proof -
  have "\<not> replaces_all ''Teh'' [CHR ''a'', CHR 0x0B, CHR ''b'']
         ''Teh quikc tets'' ''a_x000B_b quikc tets''"
    by (simp add: replaces_all_iff py_replace_def)
  moreover have "apply_run fix_with_vtab (text_run ''Teh quikc tets'')
       = Inr (text_run ''a_x000B_b quikc tets'',
              [TextDetail (PInt 1) (PStr ''spelling'') (PStr ''Teh'')
                 (PStr [CHR ''a'', CHR 0x0B, CHR ''b''])])"
    by (simp add: example_defs applier_defs more_defs)
  moreover have "\<exists>fs' st' n ds prs'.
        tool_apply_all_corrections example_disk (example_state [fix_with_vtab])
          = (fs', st', Inr (ApplySuccess n ds ''out.pptx''))
      \<and> files fs' ''out.pptx'' = Some prs'
      \<and> map shape_texts (shapes (slides prs' ! 0)) =
          [[''Teh Title''], [''a_x000B_b quikc tets''], [''a_x000B_b end'']]"
    by (simp add: example_defs applier_defs more_defs)
  moreover have "correction_type fix_with_vtab \<noteq> PStr ''alignment''"
    "corrected_text fix_with_vtab = PStr [CHR ''a'', CHR 0x0B, CHR ''b'']"
    "sublist ''Teh'' ''Teh quikc tets''"
    by (simp_all add: fix_with_vtab_def sublist_code)
  ultimately show ?thesis by blast
qed






section \<open>The most common title position: claims\<close>

text \<open>
  Claim C8, as the code has it. When there is a title, \<open>standard_left_position\<close>
  of \<^verbatim>\<open>analyze_alignment\<close> (and the result of \<^verbatim>\<open>find_most_common_position\<close>) is
  determined by the titles in slide and shape order: it is a left position of
  highest frequency, and among the positions of highest frequency it is the one
  whose first title comes first, since every position met before it has a strictly
  lower frequency.
\<close>

theorem standard_left_position_first_of_most_frequent:
  assumes "title_positions_of prs \<noteq> []"
  shows "let ls = map tp_left (title_positions_of prs)
    in \<exists>m r. analyze_alignment prs = Inr r \<and> standard_left_position r = Some m
        \<and> find_most_common_position ls = Inr (Some m)
        \<and> (\<forall>v \<in> set ls. count_list ls v \<le> count_list ls m)
        \<and> (\<exists>pre post. ls = pre @ m # post \<and> m \<notin> set pre
              \<and> (\<forall>v \<in> set pre. count_list ls v < count_list ls m))"
proof -
  define ls where "ls = map tp_left (title_positions_of prs)"
  from assms have ne: "ls \<noteq> []" by (simp add: ls_def)
  from most_common_first_of_tied [OF ne] obtain m where
    mx: "py_max_by_count (left_counts ls) = Inr (m, int (count_list ls m))" and
    le: "\<forall>v \<in> set ls. count_list ls v \<le> count_list ls m" and
    sp: "\<exists>pre post. ls = pre @ m # post \<and> m \<notin> set pre
              \<and> (\<forall>v \<in> set pre. count_list ls v < count_list ls m)"
    by blast
  from assms mx obtain r where
    r: "analyze_alignment prs = Inr r" "standard_left_position r = Some m"
    by (simp add: analyze_alignment_def Let_def ls_def [symmetric] standard_left_position_def)
  from ne mx have f: "find_most_common_position ls = Inr (Some m)"
    by (simp add: find_most_common_position_def)
  from r f le sp have "\<exists>m r. analyze_alignment prs = Inr r \<and> standard_left_position r = Some m
        \<and> find_most_common_position ls = Inr (Some m)
        \<and> (\<forall>v \<in> set ls. count_list ls v \<le> count_list ls m)
        \<and> (\<exists>pre post. ls = pre @ m # post \<and> m \<notin> set pre
              \<and> (\<forall>v \<in> set pre. count_list ls v < count_list ls m))"
    by blast
  then show ?thesis unfolding ls_def Let_def .
qed

text \<open>
  C8 on the example deck, where the positions 250 and 100 occur once each.
\<close>

theorem standard_left_position_first_of_most_frequent_witness:
  "title_positions_of deck_tied_titles \<noteq> []
   \<and> (\<exists>r. analyze_alignment deck_tied_titles = Inr r
          \<and> standard_left_position r = Some (Some 250))
   \<and> map tp_left (title_positions_of deck_tied_titles) = [] @ Some 250 # [Some 100]"
proof -
  have ne: "title_positions_of deck_tied_titles \<noteq> []" by (simp add: align_defs)
  have ls: "map tp_left (title_positions_of deck_tied_titles) = [Some 250, Some 100]"
    by (simp add: align_defs)
  from standard_left_position_first_of_most_frequent [OF ne]
  obtain m r pre post where r: "analyze_alignment deck_tied_titles = Inr r"
    "standard_left_position r = Some m" and
    sp: "[Some 250, Some 100] = pre @ m # post"
      "\<forall>v \<in> set pre. count_list [Some 250, Some 100] v < count_list [Some 250, Some 100] m"
    unfolding ls Let_def by blast
  have "m = Some 250"
  proof (cases pre)
    case Nil
    with sp(1) show ?thesis by simp
  next
    case (Cons a as)
    with sp(1) have a: "a = Some 250" and rest: "[Some 100] = as @ m # post" by simp_all
    from rest have "m = Some 100" by (cases as) simp_all
    with sp(2) Cons a show ?thesis by simp
  qed
  with r ne ls show ?thesis by auto
qed

text \<open>
  Claim C8 as stated (the smallest of the tied positions wins) fails: with titles at
  250 and then at 100 the standard position is 250.
\<close>

theorem smallest_tied_position_counterexample:
  "map tp_left (title_positions_of deck_tied_titles) = [Some 250, Some 100]
   \<and> (\<exists>r. analyze_alignment deck_tied_titles = Inr r
          \<and> standard_left_position r = Some (Some 250))
   \<and> find_most_common_position [250, 100 :: int] = Inr (Some 250)
   \<and> count_list [Some 250, Some (100::int)] (Some 100)
       = count_list [Some 250, Some (100::int)] (Some 250)
   \<and> (100 :: int) < 250"
  by (simp add: align_defs)

section \<open>The agent loop: claims\<close>

text \<open>
  Claim C1, as the code has it. Nothing in \<^verbatim>\<open>run_agent\<close> catches an exception, so
  a run returns a summary only when no completion call, no decoding of arguments and
  no tool raises. Every run that returns has left the loop with the completion flag
  set or after exactly 20 iterations, and its summary reports the iterations made.
  For a model that never calls \<^verbatim>\<open>mark_complete\<close> the flag is unset at the end, so a
  run that returns has made exactly 20 iterations; and when the model only ever
  answers with text, the run does return, with 20 iterations and no correction.
\<close>

theorem budget_exhaustion_returns_summary:
  "(\<forall>fs' s. run_agent ev fs p q = (fs', Inr s) \<longrightarrow>
      (\<exists>st. agent_loop ev fs (initial_state p q) = (fs', Inr st)
          \<and> s = summary_of st \<and> iterations s = iteration st
          \<and> (is_complete st \<or> iteration st = 20)
          \<and> (never_marks_complete ev \<longrightarrow>
                \<not> is_complete st \<and> iteration st = 20 \<and> iterations s = 20)))
 \<and> ((\<forall>i msgs. \<exists>am. llm ev i msgs = Inr am \<and> tool_calls am = []) \<longrightarrow>
      (\<exists>s. run_agent ev fs p q = (fs, Inr s) \<and> iterations s = 20
          \<and> corrections s = 0 \<and> details s = [] \<and> output_file s = q))"
proof -
  have init: "\<not> is_complete (initial_state p q)"
    "iteration (initial_state p q) \<le> MAX_ITERATIONS"
    by (simp_all add: initial_state_def MAX_ITERATIONS_def)
  have budget: "\<exists>st. agent_loop ev fs (initial_state p q) = (fs', Inr st)
          \<and> s = summary_of st \<and> iterations s = iteration st
          \<and> (is_complete st \<or> iteration st = 20)
          \<and> (never_marks_complete ev \<longrightarrow>
                \<not> is_complete st \<and> iteration st = 20 \<and> iterations s = 20)"
    if "run_agent ev fs p q = (fs', Inr s)" for fs' s
  proof -
    from that obtain st where st: "agent_loop ev fs (initial_state p q) = (fs', Inr st)"
      and s: "s = summary_of st"
      by (auto simp: run_agent_def split: sum.splits prod.splits)
    from agent_loop_exit [OF init(2) st]
    have exit: "is_complete st \<or> iteration st = 20" by (simp add: MAX_ITERATIONS_def)
    have "\<not> is_complete st" if "never_marks_complete ev"
      using agent_loop_flag [OF that init(1) st] .
    with st s exit show ?thesis by (auto simp: summary_of_def)
  qed
  have returns: "\<exists>s. run_agent ev fs p q = (fs, Inr s) \<and> iterations s = 20
                \<and> corrections s = 0 \<and> details s = [] \<and> output_file s = q"
    if only_text: "\<forall>i msgs. \<exists>am. llm ev i msgs = Inr am \<and> tool_calls am = []"
  proof -
    from agent_loop_text_only [OF only_text init, of fs]
    obtain st where "agent_loop ev fs (initial_state p q) = (fs, Inr st)"
      "iteration st = MAX_ITERATIONS" "applied_corrections st = []" "output_path st = q"
      by (auto simp: initial_state_def)
    then show ?thesis by (simp add: run_agent_def summary_of_def MAX_ITERATIONS_def)
  qed
  from budget returns show ?thesis by blast
qed

text \<open>
  C1 on a model that answers ``Reviewing the deck.'' every time.
\<close>

theorem budget_exhaustion_returns_summary_witness:
  "never_marks_complete (scripted_env text_only)
   \<and> run_agent (scripted_env text_only) example_disk ''deck.pptx'' ''out.pptx''
       = (example_disk,
          Inr \<lparr>iterations = 20, corrections = 0, output_file = ''out.pptx'', details = []\<rparr>)"
proof -
  have never: "never_marks_complete (scripted_env text_only)"
    by (simp add: never_marks_complete_def scripted_env_def text_only_def)
  have only_text: "\<forall>i msgs. \<exists>am. llm (scripted_env text_only) i msgs = Inr am \<and> tool_calls am = []"
    by (simp add: scripted_env_def text_only_def)
  from budget_exhaustion_returns_summary
         [of "scripted_env text_only" example_disk "''deck.pptx''" "''out.pptx''"] only_text
  obtain s where "run_agent (scripted_env text_only) example_disk ''deck.pptx'' ''out.pptx''
      = (example_disk, Inr s)" "iterations s = 20" "corrections s = 0" "details s = []"
      "output_file s = ''out.pptx''" by blast
  with never show ?thesis by (cases s) simp
qed

text \<open>
  Claim C1 as stated (every run without \<^verbatim>\<open>mark_complete\<close> ends after 20
  iterations with a summary and without an error) fails: a model that asks for
  \<^verbatim>\<open>analyze_text_for_errors\<close> without the argument \<open>text\<close> never calls
  \<^verbatim>\<open>mark_complete\<close>, and the run ends in its first iteration with \<^verbatim>\<open>KeyError\<close>.
\<close>

theorem budget_exhaustion_counterexample:
  "never_marks_complete (scripted_env (asks ''analyze_text_for_errors'' args_missing_text))
   \<and> run_agent (scripted_env (asks ''analyze_text_for_errors'' args_missing_text))
         example_disk ''deck.pptx'' ''out.pptx''
       = (example_disk, Inl (KeyError ''text''))"
proof -
  let ?ev = "scripted_env (asks ''analyze_text_for_errors'' args_missing_text)"
  have "agent_loop ?ev example_disk (initial_state ''deck.pptx'' ''out.pptx'')
      = (example_disk, Inl (KeyError ''text''))"
    by (subst agent_loop.simps) (simp add: loop_defs initial_state_def)
  then show ?thesis by (simp add: loop_defs)
qed

text \<open>
  Claim C5, as the code has it. The loop does not validate arguments. For the two
  tools with parameters it reads the keys the handler takes, in order, from the
  decoded dictionary: when all are there the handler is called with the values as
  they are, of whatever type, and its result is appended to the transcript under the
  call's identifier; when one is missing the \<^verbatim>\<open>KeyError\<close> for the first missing
  key leaves the loop, and nothing is appended.
\<close>

theorem handler_called_without_validation:
  assumes "tool_args_of ev tc = Inr args"
  shows "(fn_name tc \<in> {''extract_slide_content'', ''analyze_alignment'',
                        ''apply_all_corrections'', ''mark_complete''} \<longrightarrow>
           exec_tool_call ev fs st tc = exec_tool_call ev fs st (tc\<lparr>fn_arguments := []\<rparr>))
       \<and> (fn_name tc \<in> {''add_correction'', ''analyze_text_for_errors''}
            \<and> (\<forall>d. args \<noteq> PDict d) \<longrightarrow>
           exec_tool_call ev fs st tc = (fs, Inl TypeError))
       \<and> (\<forall>d. args = PDict d \<and> fn_name tc = ''add_correction'' \<longrightarrow>
           exec_tool_call ev fs st tc =
             (case find (\<lambda>k. map_of d k = None)
                     [''slide_number'', ''shape_name'', ''original_text'', ''corrected_text'',
                      ''correction_type'', ''reasoning''] of
                Some k \<Rightarrow> (fs, Inl (KeyError k))
              | None \<Rightarrow>
                  (fs, Inr (st\<lparr>pending_corrections := pending_corrections st @
                                [\<lparr>slide_number = the (map_of d ''slide_number''),
                                  shape_name = the (map_of d ''shape_name''),
                                  original_text = the (map_of d ''original_text''),
                                  corrected_text = the (map_of d ''corrected_text''),
                                  correction_type = the (map_of d ''correction_type''),
                                  reasoning = the (map_of d ''reasoning'')\<rparr>],
                              messages := messages st @
                                [ToolMsg (call_id tc)
                                   (CorrectionAdded (the (map_of d ''slide_number''))
                                      (the (map_of d ''shape_name''))
                                      (the (map_of d ''correction_type''))
                                      (the (map_of d ''original_text''))
                                      (the (map_of d ''corrected_text'')))]\<rparr>))))
       \<and> (\<forall>d. args = PDict d \<and> fn_name tc = ''analyze_text_for_errors'' \<longrightarrow>
           exec_tool_call ev fs st tc =
             (case find (\<lambda>k. map_of d k = None) [''slide_number'', ''text''] of
                Some k \<Rightarrow> (fs, Inl (KeyError k))
              | None \<Rightarrow>
                  (case proofread ev (the (map_of d ''slide_number'')) (the (map_of d ''text'')) of
                     Inl e \<Rightarrow> (fs, Inl e)
                   | Inr v \<Rightarrow>
                       (fs, Inr (st\<lparr>messages := messages st @
                                     [ToolMsg (call_id tc) (AnalysisResult v)]\<rparr>)))))"
proof (intro conjI)
  show "fn_name tc \<in> {''extract_slide_content'', ''analyze_alignment'',
                        ''apply_all_corrections'', ''mark_complete''} \<longrightarrow>
           exec_tool_call ev fs st tc = exec_tool_call ev fs st (tc\<lparr>fn_arguments := []\<rparr>)"
    using assms by (auto simp: exec_tool_call_def tool_args_of_def dispatch_def)
next
  show "fn_name tc \<in> {''add_correction'', ''analyze_text_for_errors''}
            \<and> (\<forall>d. args \<noteq> PDict d) \<longrightarrow>
           exec_tool_call ev fs st tc = (fs, Inl TypeError)"
    using assms
    by (cases args)
       (auto simp: exec_tool_call_def dispatch_def with_arg_def py_getitem_def TOOLS_def)
next
  show "\<forall>d. args = PDict d \<and> fn_name tc = ''add_correction'' \<longrightarrow>
           exec_tool_call ev fs st tc =
             (case find (\<lambda>k. map_of d k = None)
                     [''slide_number'', ''shape_name'', ''original_text'', ''corrected_text'',
                      ''correction_type'', ''reasoning''] of
                Some k \<Rightarrow> (fs, Inl (KeyError k))
              | None \<Rightarrow>
                  (fs, Inr (st\<lparr>pending_corrections := pending_corrections st @
                                [\<lparr>slide_number = the (map_of d ''slide_number''),
                                  shape_name = the (map_of d ''shape_name''),
                                  original_text = the (map_of d ''original_text''),
                                  corrected_text = the (map_of d ''corrected_text''),
                                  correction_type = the (map_of d ''correction_type''),
                                  reasoning = the (map_of d ''reasoning'')\<rparr>],
                              messages := messages st @
                                [ToolMsg (call_id tc)
                                   (CorrectionAdded (the (map_of d ''slide_number''))
                                      (the (map_of d ''shape_name''))
                                      (the (map_of d ''correction_type''))
                                      (the (map_of d ''original_text''))
                                      (the (map_of d ''corrected_text'')))]\<rparr>)))"
    using assms
    by (auto simp: exec_tool_call_def dispatch_def with_arg_def py_getitem_def TOOLS_def
        tool_add_correction_def split: option.splits)
next
  show "\<forall>d. args = PDict d \<and> fn_name tc = ''analyze_text_for_errors'' \<longrightarrow>
           exec_tool_call ev fs st tc =
             (case find (\<lambda>k. map_of d k = None) [''slide_number'', ''text''] of
                Some k \<Rightarrow> (fs, Inl (KeyError k))
              | None \<Rightarrow>
                  (case proofread ev (the (map_of d ''slide_number'')) (the (map_of d ''text'')) of
                     Inl e \<Rightarrow> (fs, Inl e)
                   | Inr v \<Rightarrow>
                       (fs, Inr (st\<lparr>messages := messages st @
                                     [ToolMsg (call_id tc) (AnalysisResult v)]\<rparr>))))"
    using assms
    by (auto simp: exec_tool_call_def dispatch_def with_arg_def py_getitem_def TOOLS_def
        tool_analyze_text_for_errors_def split: option.splits sum.splits)
qed

text \<open>
  C5 on a call of \<^verbatim>\<open>add_correction\<close> whose slide number is a string and whose
  reasoning is \<^verbatim>\<open>null\<close>: the correction is queued as it came.
\<close>

theorem handler_called_without_validation_witness:
  "tool_args_of (scripted_env text_only) (call ''add_correction'' args_ill_typed)
     = Inr (PDict [(''slide_number'', PStr ''one''), (''shape_name'', PStr ''Body''),
                   (''original_text'', PStr ''Teh''), (''corrected_text'', PStr ''the''),
                   (''correction_type'', PStr ''spelling''), (''reasoning'', PNone)])
   \<and> (\<exists>st'. exec_tool_call (scripted_env text_only) example_disk (example_state [])
                (call ''add_correction'' args_ill_typed) = (example_disk, Inr st')
          \<and> map slide_number (pending_corrections st') = [PStr ''one'']
          \<and> map reasoning (pending_corrections st') = [PNone]
          \<and> last (messages st') =
               ToolMsg ''call_1'' (CorrectionAdded (PStr ''one'') (PStr ''Body'')
                  (PStr ''spelling'') (PStr ''Teh'') (PStr ''the'')))"
proof -
  let ?d = "[(''slide_number'', PStr ''one''), (''shape_name'', PStr ''Body''),
             (''original_text'', PStr ''Teh''), (''corrected_text'', PStr ''the''),
             (''correction_type'', PStr ''spelling''), (''reasoning'', PNone)]"
  have a: "tool_args_of (scripted_env text_only) (call ''add_correction'' args_ill_typed)
             = Inr (PDict ?d)"
    by (simp add: loop_defs)
  have n: "fn_name (call ''add_correction'' args_ill_typed) = ''add_correction''"
    by (simp add: call_def)
  from handler_called_without_validation [OF a, of example_disk "example_state []"] n
  have "\<exists>st'. exec_tool_call (scripted_env text_only) example_disk (example_state [])
                (call ''add_correction'' args_ill_typed) = (example_disk, Inr st')
          \<and> map slide_number (pending_corrections st') = [PStr ''one'']
          \<and> map reasoning (pending_corrections st') = [PNone]
          \<and> last (messages st') =
               ToolMsg ''call_1'' (CorrectionAdded (PStr ''one'') (PStr ''Body'')
                  (PStr ''spelling'') (PStr ''Teh'') (PStr ''the''))"
    by (simp add: call_def example_state_def initial_state_def)
  with a show ?thesis by simp
qed

text \<open>
  Claim C5 as stated (arguments are validated against the schema, and a failure is
  appended as a tool error while the loop continues) fails both ways: arguments
  without the required \<open>reasoning\<close> end the run with \<^verbatim>\<open>KeyError\<close>, and arguments
  of the wrong types reach the handler, which reports the correction as added.
\<close>

theorem argument_validation_counterexample:
  "(\<exists>sp args. map_of TOOLS ''add_correction'' = Some sp
       \<and> tool_args_of (scripted_env text_only) (call ''add_correction'' args_missing_reasoning)
           = Inr args
       \<and> \<not> spec_args_valid sp args
       \<and> exec_tool_call (scripted_env text_only) example_disk (example_state [])
             (call ''add_correction'' args_missing_reasoning)
           = (example_disk, Inl (KeyError ''reasoning'')))
   \<and> run_agent (scripted_env (asks ''add_correction'' args_missing_reasoning))
         example_disk ''deck.pptx'' ''out.pptx''
       = (example_disk, Inl (KeyError ''reasoning''))
   \<and> (\<exists>sp args st'. map_of TOOLS ''add_correction'' = Some sp
       \<and> tool_args_of (scripted_env text_only) (call ''add_correction'' args_ill_typed) = Inr args
       \<and> \<not> spec_args_valid sp args
       \<and> exec_tool_call (scripted_env text_only) example_disk (example_state [])
             (call ''add_correction'' args_ill_typed)
           = (example_disk, Inr st')
       \<and> map slide_number (pending_corrections st') = [PStr ''one'']
       \<and> last (messages st') =
            ToolMsg ''call_1'' (CorrectionAdded (PStr ''one'') (PStr ''Body'')
               (PStr ''spelling'') (PStr ''Teh'') (PStr ''the'')))"
proof -
  let ?ev = "scripted_env (asks ''add_correction'' args_missing_reasoning)"
  have "agent_loop ?ev example_disk (initial_state ''deck.pptx'' ''out.pptx'')
      = (example_disk, Inl (KeyError ''reasoning''))"
    by (subst agent_loop.simps) (simp add: loop_defs initial_state_def)
  then have "run_agent ?ev example_disk ''deck.pptx'' ''out.pptx''
       = (example_disk, Inl (KeyError ''reasoning''))"
    by (simp add: run_agent_def)
  then show ?thesis
    by (simp add: loop_defs spec_args_valid_def has_json_type_def example_state_def
        initial_state_def)
qed

text \<open>
  Claim C10, as the code has it. The argument string of a call is decoded before
  its name is looked up. For a call whose name is not in the registry and whose
  argument string is empty or decodes, the loop appends the result
  ``Tool not found: name'' under the call's identifier, changes neither the files
  nor the rest of the state, goes on with the remaining calls of the answer, and,
  when the call was the only one, with the next pass of the loop.
\<close>

theorem unknown_tool_reported:
  assumes "fn_name tc \<notin> set (map fst TOOLS)" and "tool_args_of ev tc = Inr args"
  shows "exec_tool_call ev fs st tc =
           (fs, Inr (st\<lparr>messages := messages st @
                      [ToolMsg (call_id tc) (ErrorResult (''Tool not found: '' @ fn_name tc))]\<rparr>))
       \<and> exec_tool_calls ev fs st (tc # tcs) =
           exec_tool_calls ev fs
             (st\<lparr>messages := messages st @
                  [ToolMsg (call_id tc) (ErrorResult (''Tool not found: '' @ fn_name tc))]\<rparr>) tcs
       \<and> (\<forall>am. llm ev (iteration st + 1) (messages st) = Inr am \<and> tool_calls am = [tc]
              \<and> \<not> is_complete st \<and> iteration st < MAX_ITERATIONS \<longrightarrow>
            agent_loop ev fs st =
              agent_loop ev fs
                (st\<lparr>iteration := iteration st + 1,
                    messages := messages st @
                      [AssistantMsg am,
                       ToolMsg (call_id tc) (ErrorResult (''Tool not found: '' @ fn_name tc))]\<rparr>))"
proof -
  have one: "exec_tool_call ev fs' st' tc =
           (fs', Inr (st'\<lparr>messages := messages st' @
                      [ToolMsg (call_id tc) (ErrorResult (''Tool not found: '' @ fn_name tc))]\<rparr>))"
    for fs' st'
    using assms by (simp add: exec_tool_call_def dispatch_def)
  have loop: "agent_loop ev fs st =
              agent_loop ev fs
                (st\<lparr>iteration := iteration st + 1,
                    messages := messages st @
                      [AssistantMsg am,
                       ToolMsg (call_id tc) (ErrorResult (''Tool not found: '' @ fn_name tc))]\<rparr>)"
    if "llm ev (iteration st + 1) (messages st) = Inr am" "tool_calls am = [tc]"
      "\<not> is_complete st" "iteration st < MAX_ITERATIONS" for am
    using that by (subst agent_loop.simps) (simp add: run_iteration_def Let_def one)
  from one loop show ?thesis by simp
qed

text \<open>
  C10 on a call of the unknown tool \<open>delete_slide\<close> without arguments.
\<close>

theorem unknown_tool_reported_witness:
  "fn_name (call ''delete_slide'' []) \<notin> set (map fst TOOLS)
   \<and> tool_args_of (scripted_env text_only) (call ''delete_slide'' []) = Inr (PDict [])
   \<and> exec_tool_call (scripted_env text_only) example_disk (example_state [])
        (call ''delete_slide'' [])
       = (example_disk,
          Inr ((example_state [])\<lparr>messages := messages (example_state []) @
             [ToolMsg ''call_1'' (ErrorResult ''Tool not found: delete_slide'')]\<rparr>))"
proof -
  have n: "fn_name (call ''delete_slide'' []) \<notin> set (map fst TOOLS)"
    by (simp add: call_def TOOLS_def)
  have a: "tool_args_of (scripted_env text_only) (call ''delete_slide'' []) = Inr (PDict [])"
    by (simp add: tool_args_of_def call_def)
  from unknown_tool_reported [OF n a, of example_disk "example_state []"] n a
  show ?thesis by (simp add: call_def)
qed

text \<open>
  Claim C10 as stated (every call of an unknown tool gets an error result instead
  of an exception) fails when the argument string of the call is not JSON:
  \<^verbatim>\<open>json.loads\<close> raises before the registry is consulted, and the run ends.
\<close>

theorem unknown_tool_counterexample:
  "fn_name (call ''delete_slide'' args_not_json) \<notin> set (map fst TOOLS)
   \<and> exec_tool_call (scripted_env text_only) example_disk (example_state [])
        (call ''delete_slide'' args_not_json)
       = (example_disk, Inl JSONDecodeError)
   \<and> run_agent (scripted_env (asks ''delete_slide'' args_not_json))
         example_disk ''deck.pptx'' ''out.pptx''
       = (example_disk, Inl JSONDecodeError)"
proof -
  let ?ev = "scripted_env (asks ''delete_slide'' args_not_json)"
  have "agent_loop ?ev example_disk (initial_state ''deck.pptx'' ''out.pptx'')
      = (example_disk, Inl JSONDecodeError)"
    by (subst agent_loop.simps) (simp add: loop_defs initial_state_def)
  then have "run_agent ?ev example_disk ''deck.pptx'' ''out.pptx''
       = (example_disk, Inl JSONDecodeError)"
    by (simp add: run_agent_def)
  then show ?thesis by (simp add: loop_defs)
qed

end
